theory Spec2Isabelle
  imports Complex_Main
begin

section \<open>The HubSpot list and campaign pipeline of routes/hubspotRoute.js\<close>

text \<open>
  The pipeline talks to a remote API, sleeps and reads the clock. The embedding makes all
  of it explicit: every awaited remote call takes its reply from an environment, indexed
  by the number of calls issued so far, and every call and every timer is appended to a
  trace. Contact ids are the numbers \<open>parseInt(record.recordId)\<close> yields; they are only
  compared (by \<open>Set\<close> membership), so they are modelled as integers.
  Lengths and the counts derived from them are natural numbers. The requested count of a
  campaign is the number its configuration holds, which nothing validates: it is an
  integer, negative ones included. All numbers lie in the range where JavaScript's
  arithmetic on integers is exact.
\<close>

subsection \<open>Array helpers\<close>

text \<open>
  \<open>arr.slice(b, e)\<close>: a negative index counts from the end of the array, and both
  indices are clamped to the array; the elements from the first index up to, not
  including, the second are returned.
\<close>

definition relative_index :: "nat \<Rightarrow> int \<Rightarrow> nat" where
  "relative_index len i = (if i < 0 then nat (max (int len + i) 0) else min (nat i) len)"

definition slice :: "'a list \<Rightarrow> int \<Rightarrow> int \<Rightarrow> 'a list" where
  "slice arr b e =
     (let k = relative_index (length arr) b;
          final = relative_index (length arr) e
      in take (final - k) (drop k arr))"

text \<open>
  \<open>chunkArray\<close>: \<open>for (let i = 0; i < arr.length; i += size) chunks.push(arr.slice(i, i + size))\<close>.
  With \<open>size = 0\<close> and a non-empty array the source loop never ends: the value is \<open>None\<close>.
\<close>

function chunkArray_from :: "'a list \<Rightarrow> nat \<Rightarrow> nat \<Rightarrow> 'a list list \<Rightarrow> 'a list list option" where
  "chunkArray_from arr sz i chunks =
     (if i < length arr then
        (if sz = 0 then None
         else chunkArray_from arr sz (i + sz) (chunks @ [slice arr (int i) (int (i + sz))]))
      else Some chunks)"
  by pat_completeness auto
termination
  by (relation "measure (\<lambda>(arr, sz, i, chunks). length arr - i)") auto

declare chunkArray_from.simps [simp del]

definition chunkArray :: "'a list \<Rightarrow> nat \<Rightarrow> 'a list list option" where
  "chunkArray arr sz = chunkArray_from arr sz 0 []"

text \<open>
  \<open>progressiveChunks\<close>: for each size in turn, the inner \<open>while (index < arr.length)\<close> loop
  slices a chunk, breaks when the chunk is empty, and otherwise pushes it and advances
  \<open>index\<close> by \<open>size\<close>. \<open>index\<close> and \<open>result\<close> live across the sizes.
\<close>

function chunk_while :: "'a list \<Rightarrow> nat \<Rightarrow> nat \<times> 'a list list \<Rightarrow> nat \<times> 'a list list" where
  "chunk_while arr sz (index, result) =
     (if index < length arr then
        (if slice arr (int index) (int (index + sz)) = [] then (index, result)
         else chunk_while arr sz
                (index + sz, result @ [slice arr (int index) (int (index + sz))]))
      else (index, result))"
  by pat_completeness auto
termination
  by (relation "measure (\<lambda>(arr, sz, index, result). length arr - index)")
     (auto simp: slice_def relative_index_def Let_def)

declare chunk_while.simps [simp del]

definition default_sizes :: "nat list" where
  "default_sizes = [300, 100, 50, 1]"

definition progressiveChunks :: "'a list \<Rightarrow> nat list \<Rightarrow> 'a list list" where
  "progressiveChunks arr sizes = snd (fold (chunk_while arr) sizes (0, []))"

subsection \<open>JavaScript numbers: division, multiplication and \<open>Math.round\<close>\<close>

text \<open>
  \<open>Math.round((selectedContacts.length / count) * 100)\<close> is computed in binary64: the
  quotient is rounded to the nearest double (ties to even), so is the product, and
  \<open>Math.round\<close> then takes \<open>floor(x + 0.5)\<close> exactly. Finite doubles are rationals, so the
  rounding is written out on \<open>rat\<close>; exponent range limits are not modelled (the values
  here lie between \<open>2^-53\<close> and \<open>100\<close>).
\<close>

fun bit_length :: "nat \<Rightarrow> nat" where
  "bit_length n = (if n = 0 then 0 else Suc (bit_length (n div 2)))"

declare bit_length.simps [simp del]

definition floor_log2 :: "rat \<Rightarrow> int" where
  "floor_log2 x =
     (if 1 \<le> x then int (bit_length (nat \<lfloor>x\<rfloor>)) - 1
      else - int (bit_length (nat (\<lceil>1 / x\<rceil> - 1))))"

definition pow2 :: "int \<Rightarrow> rat" where
  "pow2 e = (if 0 \<le> e then 2 ^ nat e else 1 / 2 ^ nat (- e))"

definition round_half_even :: "rat \<Rightarrow> int" where
  "round_half_even m =
     (let f = \<lfloor>m\<rfloor>; d = m - of_int f
      in if d < 1 / 2 then f else if 1 / 2 < d then f + 1
         else if even f then f else f + 1)"

definition to_double :: "rat \<Rightarrow> rat" where
  "to_double x =
     (if x = 0 then 0
      else let e = floor_log2 \<bar>x\<bar> - 52
           in sgn x * of_int (round_half_even (\<bar>x\<bar> / pow2 e)) * pow2 e)"

definition Math_round :: "rat \<Rightarrow> int" where
  "Math_round x = \<lfloor>x + 1 / 2\<rfloor>"

text \<open>\<open>count > 0 ? Math.round((n / count) * 100) : 0\<close>\<close>

definition fulfillment :: "nat \<Rightarrow> int \<Rightarrow> int" where
  "fulfillment n count =
     (if count > 0
      then Math_round (to_double (to_double (of_nat n / of_int count) * 100))
      else 0)"

subsection \<open>JavaScript \<open>Set\<close>\<close>

text \<open>
  A \<open>Set\<close> keeps its elements in insertion order; it is a list here. \<open>add\<close> leaves the
  set unchanged when the element is present, \<open>has\<close> is membership, \<open>size\<close> is the length,
  and \<open>[...new Set(xs)]\<close> keeps the first occurrence of every element.
\<close>

definition Set_add :: "'a list \<Rightarrow> 'a \<Rightarrow> 'a list" where
  "Set_add s x = (if x \<in> set s then s else s @ [x])"

definition Set_has :: "'a list \<Rightarrow> 'a \<Rightarrow> bool" where
  "Set_has s x = (x \<in> set s)"

definition new_Set :: "'a list \<Rightarrow> 'a list" where
  "new_Set xs = foldl Set_add [] xs"

definition truthy :: "string option \<Rightarrow> bool" where
  "truthy v = (case v of None \<Rightarrow> False | Some t \<Rightarrow> t \<noteq> [])"

subsection \<open>Remote calls, timers and the clock\<close>

type_synonym contact = int

text \<open>
  The fields of a response body that the code reads. \<open>data_results\<close> is
  \<open>res.data.results || []\<close> after \<open>parseInt(record.recordId)\<close>, \<open>paging_next_after\<close> is
  \<open>res.data.paging?.next?.after\<close>; \<open>data_listId\<close> and \<open>data_deleted\<close> are read from
  \<open>res.data.list || res.data\<close>; \<open>hs_classic_list_id\<close> is
  \<open>lists[0].additionalProperties?.hs_classic_list_id\<close> (absent when there is no such
  list); \<open>processingType\<close> is \<open>listData.processingType || listData.processing_type\<close>.
\<close>

record payload =
  data_results :: "contact list"
  paging_next_after :: "string option"
  data_listId :: "string option"
  data_deleted :: "bool option"
  hs_classic_list_id :: "string option"
  processingType :: "string option"

text \<open>A call is rejected with \<open>error.response?.status\<close> and \<open>error.message\<close>, or resolves.\<close>

datatype reply = Fails "nat option" string | Responds payload

record list_outcome =
  listId :: string
  legacyListId :: "string option"
  contactCount :: nat
  requestedCount :: int
  availableCount :: nat
  filteredCount :: nat
  fulfillmentPercentage :: int

text \<open>The object handed to \<open>CreatedList.create\<close> (without \<open>createdDate\<close>).\<close>

record created_list = list_outcome +
  name :: string
  deleted :: "bool option"
  filterCriteria :: "string \<times> string"
  campaignDetails :: "string \<times> string \<times> string"

record campaign_result = list_outcome +
  success :: bool
  listName :: string
  createdList :: created_list

datatype event =
    Get_memberships string nat "string option"
  | Post_lists string
  | Post_lists_search string
  | Get_list string
  | Put_memberships_add string "contact list"
  | Post_contacts_batch_update "contact list" string "string option"
  | CreatedList_create created_list
  | Timeout nat

datatype error =
    Legacy_list string
  | Unable_to_fetch string string
  | Request_failed "nat option" string
  | ListId_not_returned

record env =
  reply_of :: "nat \<Rightarrow> reply"
  latency :: "nat \<Rightarrow> nat"

record settings =
  RETRIEVAL_BATCH_SIZE :: nat
  MAX_RETRIES :: nat
  INTER_LIST_DELAY_MS :: nat

text \<open>The values the module takes when the environment variables are unset.\<close>

definition default_settings :: settings where
  "default_settings =
     \<lparr>RETRIEVAL_BATCH_SIZE = 1000, MAX_RETRIES = 3, INTER_LIST_DELAY_MS = 3 * 60 * 1000\<rparr>"

text \<open>
  \<open>calls\<close> counts the remote calls issued so far, \<open>clock\<close> is what \<open>Date.now()\<close> reads
  (milliseconds), \<open>trace\<close> lists the calls and timers in the order they happened.
\<close>

record run_state =
  calls :: nat
  clock :: nat
  trace :: "event list"

text \<open>An awaited axios or mongoose call: the reply comes from the environment.\<close>

definition request :: "env \<Rightarrow> event \<Rightarrow> run_state \<Rightarrow> reply \<times> run_state" where
  "request w ev s =
     (reply_of w (calls s),
      s\<lparr>calls := calls s + 1, clock := clock s + latency w (calls s), trace := trace s @ [ev]\<rparr>)"

text \<open>
  \<open>await new Promise(r => setTimeout(r, ms))\<close>: the clock advances by \<open>ms\<close>. Only remote
  calls and timers take time; the computation between them takes none.
\<close>

definition setTimeout :: "nat \<Rightarrow> run_state \<Rightarrow> run_state" where
  "setTimeout ms s = s\<lparr>clock := clock s + ms, trace := trace s @ [Timeout ms]\<rparr>"

subsection \<open>Paginated list reader: \<open>getContactsFromList\<close>\<close>

record fetch_vars =
  allContacts :: "contact list"
  hasMore :: bool
  after :: "string option"
  consecutiveErrors :: nat
  totalAttempts :: nat
  isLegacyList :: bool
  v3Success :: bool

text \<open>
  The \<open>while (hasMore && allContacts.length < maxCount)\<close> loop. An endless run of empty
  pages that each carry a cursor keeps it going forever, so it takes fuel: one unit per
  iteration, \<open>None\<close> when the fuel is used up. \<open>Inl\<close> is the \<open>throw\<close> of line 155, \<open>Inr\<close>
  leaves the loop (by its condition or by \<open>break\<close>).
\<close>

fun fetch_loop ::
  "nat \<Rightarrow> env \<Rightarrow> settings \<Rightarrow> string \<Rightarrow> nat \<Rightarrow> fetch_vars \<Rightarrow> run_state
     \<Rightarrow> ((error + fetch_vars) \<times> run_state) option" where
  "fetch_loop 0 w cfg lid maxCount v s =
     (if hasMore v \<and> length (allContacts v) < maxCount then None else Some (Inr v, s))"
| "fetch_loop (Suc fuel) w cfg lid maxCount v s =
     (if hasMore v \<and> length (allContacts v) < maxCount then
        (let countToFetch = min (RETRIEVAL_BATCH_SIZE cfg) (maxCount - length (allContacts v));
             v1 = v\<lparr>totalAttempts := totalAttempts v + 1\<rparr>
         in case request w (Get_memberships lid countToFetch
                              (if truthy (after v) then after v else None)) s of
              (Responds p, s1) \<Rightarrow>
                (let v2 = v1\<lparr>v3Success := True, allContacts := allContacts v1 @ data_results p\<rparr>;
                     v3 = v2\<lparr>hasMore := truthy (paging_next_after p)
                                          \<and> length (allContacts v2) < maxCount,
                             after := paging_next_after p,
                             consecutiveErrors := 0\<rparr>
                 in if length (allContacts v3) \<ge> maxCount
                    then Some (Inr (v3\<lparr>allContacts := slice (allContacts v3) 0 (int maxCount)\<rparr>),
                               s1)
                    else fetch_loop fuel w cfg lid maxCount v3
                           (if hasMore v3 then setTimeout 200 s1 else s1))
            | (Fails status msg, s1) \<Rightarrow>
                if status = Some 404 \<and> totalAttempts v1 = 1
                then Some (Inr (v1\<lparr>isLegacyList := True\<rparr>), s1)
                else
                  (let v2 = v1\<lparr>consecutiveErrors := consecutiveErrors v1 + 1\<rparr>
                   in if allContacts v2 \<noteq> [] \<and> consecutiveErrors v2 \<ge> MAX_RETRIES cfg
                      then Some (Inr v2, s1)
                      else if allContacts v2 = [] \<and> consecutiveErrors v2 \<ge> MAX_RETRIES cfg
                      then Some (Inl (Unable_to_fetch lid msg), s1)
                      else fetch_loop fuel w cfg lid maxCount v2
                             (setTimeout (min (1000 * 2 ^ (consecutiveErrors v2 - 1)) 10000) s1)))
      else Some (Inr v, s))"

text \<open>\<open>getContactsFromLegacyList\<close> logs and always throws.\<close>

definition getContactsFromLegacyList :: "string \<Rightarrow> nat \<Rightarrow> error + contact list" where
  "getContactsFromLegacyList lid maxCount = Inl (Legacy_list lid)"

definition initial_fetch_vars :: fetch_vars where
  "initial_fetch_vars =
     \<lparr>allContacts = [], hasMore = True, after = None, consecutiveErrors = 0,
      totalAttempts = 0, isLegacyList = False, v3Success = False\<rparr>"

text \<open>The code after the loop (lines 164 to 180).\<close>

definition after_loop :: "string \<Rightarrow> nat \<Rightarrow> fetch_vars \<Rightarrow> error + contact list" where
  "after_loop lid maxCount v =
     (if v3Success v \<and> allContacts v = [] \<and> \<not> isLegacyList v then
        (case getContactsFromLegacyList lid maxCount of
           Inr legacyContacts \<Rightarrow>
             Inr (new_Set (if legacyContacts \<noteq> [] then legacyContacts else allContacts v))
         | Inl legacyError \<Rightarrow> Inr (new_Set (allContacts v)))
      else if isLegacyList v then
        (case getContactsFromLegacyList lid maxCount of
           Inr legacyContacts \<Rightarrow> Inr (new_Set legacyContacts)
         | Inl legacyError \<Rightarrow> Inl legacyError)
      else Inr (new_Set (allContacts v)))"

text \<open>
  \<open>maxCount\<close> is a natural number: both callers pass \<open>Math.max(..., 500)\<close> (the default
  \<open>Infinity\<close> is never used).
\<close>

definition getContactsFromList ::
  "nat \<Rightarrow> env \<Rightarrow> settings \<Rightarrow> string \<Rightarrow> nat \<Rightarrow> run_state
     \<Rightarrow> ((error + contact list) \<times> run_state) option" where
  "getContactsFromList fuel w cfg lid maxCount s =
     (case fetch_loop fuel w cfg lid maxCount initial_fetch_vars s of
        None \<Rightarrow> None
      | Some (Inl e, s1) \<Rightarrow> Some (Inl e, s1)
      | Some (Inr v, s1) \<Rightarrow> Some (after_loop lid maxCount v, s1))"

subsection \<open>Remote list manager\<close>

record hubspot_list =
  new_listId :: string
  new_legacyListId :: "string option"
  new_deleted :: "bool option"

text \<open>\<open>getLegacySegmentId\<close> never throws: every failure is \<open>null\<close>.\<close>

definition getLegacySegmentId :: "env \<Rightarrow> string \<Rightarrow> run_state \<Rightarrow> string option \<times> run_state" where
  "getLegacySegmentId w ilsListId s =
     (case request w (Post_lists_search ilsListId) s of
        (Responds p, s1) \<Rightarrow>
          (if truthy (hs_classic_list_id p) then (hs_classic_list_id p, s1) else (None, s1))
      | (Fails status msg, s1) \<Rightarrow> (None, s1))"

definition createHubSpotList ::
  "env \<Rightarrow> string \<Rightarrow> run_state \<Rightarrow> (error + hubspot_list) \<times> run_state" where
  "createHubSpotList w nm s =
     (case request w (Post_lists nm) s of
        (Fails status msg, s1) \<Rightarrow> (Inl (Request_failed status msg), s1)
      | (Responds p, s1) \<Rightarrow>
          (case data_listId p of
             None \<Rightarrow> (Inl ListId_not_returned, s1)
           | Some lid \<Rightarrow>
               if lid = [] then (Inl ListId_not_returned, s1)
               else (case getLegacySegmentId w lid s1 of
                       (legacy, s2) \<Rightarrow>
                         (Inr \<lparr>new_listId = lid, new_legacyListId = legacy,
                               new_deleted = data_deleted p\<rparr>, s2))))"

definition verifyListIsManual :: "env \<Rightarrow> string \<Rightarrow> run_state \<Rightarrow> bool \<times> run_state" where
  "verifyListIsManual w lid s =
     (case request w (Get_list lid) s of
        (Responds p, s1) \<Rightarrow>
          (if \<not> truthy (processingType p) \<or> processingType p \<noteq> Some ''MANUAL''
           then (False, s1) else (True, s1))
      | (Fails status msg, s1) \<Rightarrow> (False, s1))"

subsection \<open>Membership writer: \<open>addContactsToList\<close>\<close>

text \<open>
  The \<open>while (retries < MAX_RETRIES && !success)\<close> loop for one chunk; the result says
  whether the chunk was added.
\<close>

function put_chunk ::
  "env \<Rightarrow> settings \<Rightarrow> string \<Rightarrow> contact list \<Rightarrow> nat \<Rightarrow> run_state \<Rightarrow> bool \<times> run_state" where
  "put_chunk w cfg lid chunk retries s =
     (if retries < MAX_RETRIES cfg then
        (case request w (Put_memberships_add lid chunk) s of
           (Responds p, s1) \<Rightarrow> (True, setTimeout 500 s1)
         | (Fails status msg, s1) \<Rightarrow>
             if retries + 1 < MAX_RETRIES cfg
             then put_chunk w cfg lid chunk (retries + 1)
                    (setTimeout (min (1000 * 2 ^ (retries + 1 - 1)) 5000) s1)
             else (False, s1))
      else (False, s))"
  by pat_completeness auto
termination
  by (relation "measure (\<lambda>(w, cfg, lid, chunk, retries, s). MAX_RETRIES cfg - retries)") auto

declare put_chunk.simps [simp del]

text \<open>The \<open>for (const [index, chunk] of chunks.entries())\<close> loop.\<close>

fun put_chunks ::
  "env \<Rightarrow> settings \<Rightarrow> string \<Rightarrow> contact list list \<Rightarrow> nat \<Rightarrow> run_state \<Rightarrow> nat \<times> run_state" where
  "put_chunks w cfg lid [] successCount s = (successCount, s)"
| "put_chunks w cfg lid (chunk # chunks) successCount s =
     (case put_chunk w cfg lid chunk 0 s of
        (ok, s1) \<Rightarrow>
          put_chunks w cfg lid chunks
            (if ok then successCount + length chunk else successCount) s1)"

text \<open>\<open>contacts\<close> is \<open>None\<close> for a missing (\<open>null\<close> or \<open>undefined\<close>) array.\<close>

definition addContactsToList ::
  "env \<Rightarrow> settings \<Rightarrow> string \<Rightarrow> contact list option \<Rightarrow> bool \<Rightarrow> run_state \<Rightarrow> nat \<times> run_state" where
  "addContactsToList w cfg lid contacts skipVerification s =
     (case contacts of
        None \<Rightarrow> (0, s)
      | Some cs \<Rightarrow>
          if cs = [] then (0, s)
          else
            (case (if \<not> skipVerification then verifyListIsManual w lid s else (True, s)) of
               (isManual, s1) \<Rightarrow>
                 if \<not> isManual then (0, s1)
                 else put_chunks w cfg lid (progressiveChunks cs default_sizes) 0 s1))"

subsection \<open>Contact property updater\<close>

text \<open>
  One batch-update call per chunk of 100, its outcome ignored, and 300 ms after each.
  The payload is abstracted to the chunk, the date and the brand value.
\<close>

fun update_chunks ::
  "env \<Rightarrow> string \<Rightarrow> string option \<Rightarrow> contact list list \<Rightarrow> run_state \<Rightarrow> run_state" where
  "update_chunks w dateValue brandValue [] s = s"
| "update_chunks w dateValue brandValue (chunk # chunks) s =
     (case request w (Post_contacts_batch_update chunk dateValue brandValue) s of
        (r, s1) \<Rightarrow> update_chunks w dateValue brandValue chunks (setTimeout 300 s1))"

definition updateContactProperties ::
  "env \<Rightarrow> contact list \<Rightarrow> string \<Rightarrow> string option \<Rightarrow> run_state \<Rightarrow> run_state option" where
  "updateContactProperties w contactIds dateValue brandValue s =
     (case chunkArray contactIds 100 of
        None \<Rightarrow> None
      | Some chunks \<Rightarrow> Some (update_chunks w dateValue brandValue chunks s))"

subsection \<open>Campaign processor: \<open>processSingleCampaign\<close>\<close>

text \<open>
  A campaign configuration, as \<open>Segmentation.find(query).lean()\<close> hands it over. \<open>count\<close>
  is used as it comes: no code checks its sign (fractional counts are not modelled).
  \<open>date\<close> stands for the configured date as \<open>getFormattedDate\<close> renders it (the
  rendering depends on the host's time zone and is not modelled).
\<close>

record segmentation =
  brand :: string
  campaign :: string
  primaryListId :: string
  secondaryListId :: "string option"
  count :: int
  domain :: string
  date :: string
  sendContactListId :: "string option"
  lastMarketingEmailSentBrand :: "string option"

record sourcing =
  primaryContacts :: "contact list"
  secondaryContacts :: "contact list"
  primaryBeforeFilter :: nat
  primaryAfterFilter :: nat
  secondaryBeforeFilter :: nat
  secondaryAfterFilter :: nat

text \<open>
  The \<open>try\<close> block of lines 382 to 406. A fetch that throws leaves the variables as they
  were when it was called. The fetch counts \<open>Math.max(count * 3, 500)\<close> and
  \<open>Math.max(secondaryNeeded * 3, 500)\<close> are at least 500 whatever \<open>count\<close> is.
\<close>

definition fetch_sources ::
  "nat \<Rightarrow> env \<Rightarrow> settings \<Rightarrow> segmentation \<Rightarrow> contact list \<Rightarrow> run_state
     \<Rightarrow> (sourcing \<times> run_state) option" where
  "fetch_sources fuel w cfg config usedContactsSet s =
     (case getContactsFromList fuel w cfg (primaryListId config)
             (nat (max (count config * 3) 500)) s of
        None \<Rightarrow> None
      | Some (Inl e, s1) \<Rightarrow>
          Some (\<lparr>primaryContacts = [], secondaryContacts = [], primaryBeforeFilter = 0,
                 primaryAfterFilter = 0, secondaryBeforeFilter = 0, secondaryAfterFilter = 0\<rparr>, s1)
      | Some (Inr fetched, s1) \<Rightarrow>
          (let primary = filter (\<lambda>vid. \<not> Set_has usedContactsSet vid) fetched;
               src = \<lparr>primaryContacts = primary, secondaryContacts = [],
                      primaryBeforeFilter = length fetched, primaryAfterFilter = length primary,
                      secondaryBeforeFilter = 0, secondaryAfterFilter = 0\<rparr>
           in case secondaryListId config of
                None \<Rightarrow> Some (src, s1)
              | Some lid2 \<Rightarrow>
                  if int (length primary) < count config \<and> lid2 \<noteq> [] then
                    (case getContactsFromList fuel w cfg lid2
                            (nat (max ((count config - int (length primary)) * 3) 500)) s1 of
                       None \<Rightarrow> None
                     | Some (Inl e, s2) \<Rightarrow> Some (src, s2)
                     | Some (Inr fetched2, s2) \<Rightarrow>
                         (let secondary = filter (\<lambda>vid. \<not> Set_has usedContactsSet vid) fetched2
                          in Some (src\<lparr>secondaryContacts := secondary,
                                       secondaryBeforeFilter := length fetched2,
                                       secondaryAfterFilter := length secondary\<rparr>, s2)))
                  else Some (src, s1)))"

text \<open>
  Lines 431 to 449: the membership writes and the property update for a non-empty
  selection. Neither callee throws; the result is \<open>actualContactsAdded\<close>.
\<close>

definition populate ::
  "env \<Rightarrow> settings \<Rightarrow> segmentation \<Rightarrow> string \<Rightarrow> contact list \<Rightarrow> run_state
     \<Rightarrow> (nat \<times> run_state) option" where
  "populate w cfg config newListId selectedContacts s =
     (if selectedContacts \<noteq> [] then
        (let s1 = (case sendContactListId config of
                     None \<Rightarrow> s
                   | Some sendId \<Rightarrow>
                       if sendId \<noteq> []
                       then snd (addContactsToList w cfg sendId (Some selectedContacts) True s)
                       else s)
         in case addContactsToList w cfg newListId (Some selectedContacts) True s1 of
              (actualContactsAdded, s2) \<Rightarrow>
                (case updateContactProperties w selectedContacts (date config)
                        (lastMarketingEmailSentBrand config) s2 of
                   None \<Rightarrow> None
                 | Some s3 \<Rightarrow> Some (actualContactsAdded, s3)))
      else Some (0, s))"

definition list_name :: "segmentation \<Rightarrow> string" where
  "list_name config =
     brand config @ '' - '' @ campaign config @ '' - '' @ domain config @ '' - '' @ date config"

text \<open>
  The result carries, besides the outcome (\<open>Inl\<close> when the campaign throws), the value
  of the local \<open>selectedContacts\<close> and the shared \<open>usedContactsSet\<close> as the call leaves it:
  the set is mutated before anything can throw.
\<close>

definition processSingleCampaign ::
  "nat \<Rightarrow> env \<Rightarrow> settings \<Rightarrow> segmentation \<Rightarrow> string \<Rightarrow> string \<Rightarrow> contact list \<Rightarrow> run_state
     \<Rightarrow> ((error + campaign_result) \<times> contact list \<times> contact list \<times> run_state) option" where
  "processSingleCampaign fuel w cfg config daysFilter modeFilter usedContactsSet s =
     (case fetch_sources fuel w cfg config usedContactsSet s of
        None \<Rightarrow> None
      | Some (src, s1) \<Rightarrow>
          (let selectedContacts =
                 slice (primaryContacts src @ secondaryContacts src) 0 (count config);
               used = foldl Set_add usedContactsSet selectedContacts;
               pct = fulfillment (length selectedContacts) (count config)
           in case createHubSpotList w (list_name config) s1 of
                (Inl e, s2) \<Rightarrow> Some (Inl e, selectedContacts, used, s2)
              | (Inr newList, s2) \<Rightarrow>
                  (case populate w cfg config (new_listId newList) selectedContacts s2 of
                     None \<Rightarrow> None
                   | Some (actualContactsAdded, s3) \<Rightarrow>
                       (let doc = \<lparr>listId = new_listId newList,
                                   legacyListId = new_legacyListId newList,
                                   contactCount = actualContactsAdded,
                                   requestedCount = count config,
                                   availableCount =
                                     primaryBeforeFilter src + secondaryBeforeFilter src,
                                   filteredCount =
                                     (primaryBeforeFilter src - primaryAfterFilter src)
                                     + (secondaryBeforeFilter src - secondaryAfterFilter src),
                                   fulfillmentPercentage = pct,
                                   name = list_name config,
                                   deleted = new_deleted newList,
                                   filterCriteria = (daysFilter, modeFilter),
                                   campaignDetails =
                                     (brand config, campaign config, date config)\<rparr>
                        in case request w (CreatedList_create doc) s3 of
                             (Fails status msg, s4) \<Rightarrow>
                               Some (Inl (Request_failed status msg), selectedContacts, used, s4)
                           | (Responds p, s4) \<Rightarrow>
                               Some (Inr \<lparr>listId = new_listId newList,
                                          legacyListId = new_legacyListId newList,
                                          contactCount = actualContactsAdded,
                                          requestedCount = count config,
                                          availableCount =
                                            primaryBeforeFilter src + secondaryBeforeFilter src,
                                          filteredCount =
                                            (primaryBeforeFilter src - primaryAfterFilter src)
                                            + (secondaryBeforeFilter src
                                               - secondaryAfterFilter src),
                                          fulfillmentPercentage = pct,
                                          success = True,
                                          listName = list_name config,
                                          createdList = doc\<rparr>,
                                     selectedContacts, used, s4)))))"

subsection \<open>Run sequencer: \<open>processCampaignsWithDelay\<close>\<close>

datatype settled = Fulfilled campaign_result | Rejected error

text \<open>
  \<open>results\<close> and \<open>usedContacts\<close> are the loop's variables; \<open>selections\<close> records, for the
  statements below, the \<open>selectedContacts\<close> of each campaign in order.
\<close>

record run_vars =
  results :: "settled list"
  usedContacts :: "contact list"
  selections :: "contact list list"

text \<open>\<open>Math.max(0, INTER_LIST_DELAY_MS - elapsed)\<close> with \<open>elapsed = Date.now() - startTime\<close>.\<close>

definition inter_delay :: "settings \<Rightarrow> nat \<Rightarrow> nat \<Rightarrow> nat" where
  "inter_delay cfg startTime now =
     nat (max 0 (int (INTER_LIST_DELAY_MS cfg) - (int now - int startTime)))"

text \<open>
  The \<open>for (const [index, config] of listConfigs.entries())\<close> loop; \<open>total_count\<close> is
  \<open>listConfigs.length\<close>.
\<close>

fun campaign_loop ::
  "nat \<Rightarrow> env \<Rightarrow> settings \<Rightarrow> string \<Rightarrow> string \<Rightarrow> nat \<Rightarrow> segmentation list \<Rightarrow> nat
     \<Rightarrow> run_vars \<Rightarrow> run_state \<Rightarrow> (run_vars \<times> run_state) option" where
  "campaign_loop fuel w cfg daysFilter modeFilter total_count [] index rv s = Some (rv, s)"
| "campaign_loop fuel w cfg daysFilter modeFilter total_count (config # rest) index rv s =
     (let startTime = clock s
      in case processSingleCampaign fuel w cfg config daysFilter modeFilter (usedContacts rv) s of
           None \<Rightarrow> None
         | Some (Inr result, sel, used, s1) \<Rightarrow>
             campaign_loop fuel w cfg daysFilter modeFilter total_count rest (index + 1)
               \<lparr>results = results rv @ [Fulfilled result], usedContacts = used,
                selections = selections rv @ [sel]\<rparr>
               (if int index < int total_count - 1
                then setTimeout (inter_delay cfg startTime (clock s1)) s1 else s1)
         | Some (Inl err, sel, used, s1) \<Rightarrow>
             (let delay = inter_delay cfg startTime (clock s1)
              in campaign_loop fuel w cfg daysFilter modeFilter total_count rest (index + 1)
                   \<lparr>results = results rv @ [Rejected err], usedContacts = used,
                    selections = selections rv @ [sel]\<rparr>
                   (if int index < int total_count - 1 then setTimeout delay s1 else s1)))"

definition initial_run_vars :: run_vars where
  "initial_run_vars = \<lparr>results = [], usedContacts = [], selections = []\<rparr>"

definition run_campaigns ::
  "nat \<Rightarrow> env \<Rightarrow> settings \<Rightarrow> segmentation list \<Rightarrow> string \<Rightarrow> string \<Rightarrow> run_state
     \<Rightarrow> (run_vars \<times> run_state) option" where
  "run_campaigns fuel w cfg listConfigs daysFilter modeFilter s =
     campaign_loop fuel w cfg daysFilter modeFilter (length listConfigs) listConfigs 0
       initial_run_vars s"

text \<open>The function returns \<open>results\<close>; the totals it logs are not modelled.\<close>

definition processCampaignsWithDelay ::
  "nat \<Rightarrow> env \<Rightarrow> settings \<Rightarrow> segmentation list \<Rightarrow> string \<Rightarrow> string \<Rightarrow> run_state
     \<Rightarrow> (settled list \<times> run_state) option" where
  "processCampaignsWithDelay fuel w cfg listConfigs daysFilter modeFilter s =
     (case run_campaigns fuel w cfg listConfigs daysFilter modeFilter s of
        None \<Rightarrow> None
      | Some (rv, s1) \<Rightarrow> Some (results rv, s1))"

subsection \<open>Vocabulary of the statements and concrete environments\<close>

text \<open>A membership-add call in the trace.\<close>

definition is_add :: "event \<Rightarrow> bool" where
  "is_add e = (case e of Put_memberships_add l c \<Rightarrow> True | _ \<Rightarrow> False)"

definition start_state :: run_state where
  "start_state = \<lparr>calls = 0, clock = 0, trace = []\<rparr>"

text \<open>An endpoint that answers every call with a 404.\<close>

definition env_404 :: env where
  "env_404 = \<lparr>reply_of = (\<lambda>n. Fails (Some 404) ''Not Found''), latency = (\<lambda>n. 0)\<rparr>"

text \<open>A rejected call whose status is not 404.\<close>

definition other_error :: "reply \<Rightarrow> bool" where
  "other_error r = (case r of Fails status msg \<Rightarrow> status \<noteq> Some 404 | Responds p \<Rightarrow> False)"

definition message_of :: "reply \<Rightarrow> string" where
  "message_of r = (case r of Fails status msg \<Rightarrow> msg | Responds p \<Rightarrow> [])"

text \<open>
  The trace of \<open>k\<close> failed attempts of one request that end at the retry ceiling, starting
  with \<open>c\<close> consecutive errors: after each failure but the last, a timer of
  \<open>min(1000 * 2^(consecutiveErrors - 1), 10000)\<close> ms, \<open>consecutiveErrors\<close> counting that
  failure.
\<close>

fun backoff_events :: "event \<Rightarrow> nat \<Rightarrow> nat \<Rightarrow> event list" where
  "backoff_events get c 0 = []"
| "backoff_events get c (Suc k) =
     get # (if k = 0 then []
            else Timeout (min (1000 * 2 ^ (Suc c - 1)) 10000) # backoff_events get (Suc c) k)"

text \<open>An endpoint that answers every call with a 500.\<close>

definition env_500 :: env where
  "env_500 = \<lparr>reply_of = (\<lambda>n. Fails (Some 500) ''Server Error''), latency = (\<lambda>n. 0)\<rparr>"

text \<open>The membership request the loop issues from the variables \<open>v\<close>.\<close>

definition next_request :: "settings \<Rightarrow> string \<Rightarrow> nat \<Rightarrow> fetch_vars \<Rightarrow> event" where
  "next_request cfg lid maxCount v =
     Get_memberships lid (min (RETRIEVAL_BATCH_SIZE cfg) (maxCount - length (allContacts v)))
       (if truthy (after v) then after v else None)"

text \<open>Replies and scripted environments for concrete runs.\<close>

definition page :: "contact list \<Rightarrow> string option \<Rightarrow> reply" where
  "page cs cursor =
     Responds \<lparr>data_results = cs, paging_next_after = cursor, data_listId = None,
               data_deleted = None, hs_classic_list_id = None, processingType = None\<rparr>"

definition created :: "string \<Rightarrow> reply" where
  "created lid =
     Responds \<lparr>data_results = [], paging_next_after = None, data_listId = Some lid,
               data_deleted = None, hs_classic_list_id = None,
               processingType = Some ''MANUAL''\<rparr>"

definition acknowledged :: reply where
  "acknowledged = page [] None"

text \<open>
  The \<open>n\<close>-th call gets the \<open>n\<close>-th reply of the script, later calls are acknowledged;
  every call takes 10 ms.
\<close>

definition scripted :: "reply list \<Rightarrow> env" where
  "scripted rs =
     \<lparr>reply_of = (\<lambda>n. if n < length rs then rs ! n else acknowledged),
      latency = (\<lambda>n. 10)\<rparr>"

definition campaign_cfg :: "string \<Rightarrow> string option \<Rightarrow> int \<Rightarrow> segmentation" where
  "campaign_cfg primary secondary n =
     \<lparr>brand = ''Acme'', campaign = ''Spring'', primaryListId = primary,
      secondaryListId = secondary, count = n, domain = ''acme.example'',
      date = ''3 Nov 2026'', sendContactListId = None,
      lastMarketingEmailSentBrand = None\<rparr>"

text \<open>
  One contact is available and requested; the list is created; all three membership-add
  attempts fail.
\<close>

definition env_add_fails :: env where
  "env_add_fails =
     scripted [page [7] None, created ''900'', acknowledged,
               Fails (Some 500) ''Server Error'', Fails (Some 500) ''Server Error'',
               Fails (Some 500) ''Server Error'']"

text \<open>The primary list holds one contact; everything succeeds.\<close>

definition env_one_contact :: env where
  "env_one_contact = scripted [page [7] None, created ''900'']"

text \<open>The primary list holds contact 7, the secondary list contacts 7 and 8.\<close>

definition env_shared_contact :: env where
  "env_shared_contact = scripted [page [7] None, page [7, 8] None, created ''900'']"

text \<open>The primary list holds contacts 7, 8 and 9; everything succeeds.\<close>

definition env_three_contacts :: env where
  "env_three_contacts = scripted [page [7, 8, 9] None, created ''900'']"

text \<open>The record and the result of those runs, by their counts.\<close>

definition list_doc :: "nat \<Rightarrow> int \<Rightarrow> nat \<Rightarrow> int \<Rightarrow> created_list" where
  "list_doc added requested available pct =
     \<lparr>listId = ''900'', legacyListId = None, contactCount = added,
      requestedCount = requested, availableCount = available, filteredCount = 0,
      fulfillmentPercentage = pct,
      name = ''Acme - Spring - acme.example - 3 Nov 2026'', deleted = None,
      filterCriteria = (''today'', ''BAU''),
      campaignDetails = (''Acme'', ''Spring'', ''3 Nov 2026'')\<rparr>"

definition list_result :: "nat \<Rightarrow> int \<Rightarrow> nat \<Rightarrow> int \<Rightarrow> campaign_result" where
  "list_result added requested available pct =
     \<lparr>listId = ''900'', legacyListId = None, contactCount = added,
      requestedCount = requested, availableCount = available, filteredCount = 0,
      fulfillmentPercentage = pct, success = True,
      listName = ''Acme - Spring - acme.example - 3 Nov 2026'',
      createdList = list_doc added requested available pct\<rparr>"

definition state_add_fails :: run_state where
  "state_add_fails =
     \<lparr>calls = 8, clock = 3380,
      trace =
        [Get_memberships ''100'' 500 None,
         Post_lists ''Acme - Spring - acme.example - 3 Nov 2026'',
         Post_lists_search ''900'', Put_memberships_add ''900'' [7],
         Timeout 1000, Put_memberships_add ''900'' [7], Timeout 2000,
         Put_memberships_add ''900'' [7],
         Post_contacts_batch_update [7] ''3 Nov 2026'' None, Timeout 300,
         CreatedList_create (list_doc 0 1 1 100)]\<rparr>"

definition state_one_contact :: run_state where
  "state_one_contact =
     \<lparr>calls = 6, clock = 860,
      trace =
        [Get_memberships ''100'' 500 None,
         Post_lists ''Acme - Spring - acme.example - 3 Nov 2026'',
         Post_lists_search ''900'', Put_memberships_add ''900'' [7],
         Timeout 500, Post_contacts_batch_update [7] ''3 Nov 2026'' None,
         Timeout 300,
         CreatedList_create (list_doc 1 5 1 20)]\<rparr>"

definition state_none_requested :: run_state where
  "state_none_requested =
     \<lparr>calls = 4, clock = 40,
      trace =
        [Get_memberships ''100'' 500 None,
         Post_lists ''Acme - Spring - acme.example - 3 Nov 2026'',
         Post_lists_search ''900'',
         CreatedList_create (list_doc 0 0 1 0)]\<rparr>"

definition state_negative_count :: run_state where
  "state_negative_count =
     \<lparr>calls = 6, clock = 860,
      trace =
        [Get_memberships ''100'' 500 None,
         Post_lists ''Acme - Spring - acme.example - 3 Nov 2026'',
         Post_lists_search ''900'', Put_memberships_add ''900'' [7, 8],
         Timeout 500, Post_contacts_batch_update [7, 8] ''3 Nov 2026'' None,
         Timeout 300,
         CreatedList_create (list_doc 2 (- 1) 3 0)]\<rparr>"

definition state_shared_contact :: run_state where
  "state_shared_contact =
     \<lparr>calls = 7, clock = 870,
      trace =
        [Get_memberships ''100'' 500 None, Get_memberships ''200'' 500 None,
         Post_lists ''Acme - Spring - acme.example - 3 Nov 2026'',
         Post_lists_search ''900'', Put_memberships_add ''900'' [7, 7],
         Timeout 500, Post_contacts_batch_update [7, 7] ''3 Nov 2026'' None,
         Timeout 300,
         CreatedList_create (list_doc 2 2 3 100)]\<rparr>"
text \<open>
  What the campaign reads from its source lists: the list \<open>getContactsFromList\<close> returns
  for the primary list, and for the secondary list when the campaign reads it; the empty
  list when a list is not read or its read throws.
\<close>

definition primary_fetched :: "nat \<Rightarrow> env \<Rightarrow> settings \<Rightarrow> segmentation \<Rightarrow> run_state \<Rightarrow> contact list" where
  "primary_fetched fuel w cfg config s =
     (case getContactsFromList fuel w cfg (primaryListId config)
             (nat (max (count config * 3) 500)) s of
        None \<Rightarrow> []
      | Some (Inl e, s1) \<Rightarrow> []
      | Some (Inr cs, s1) \<Rightarrow> cs)"

definition secondary_fetched ::
  "nat \<Rightarrow> env \<Rightarrow> settings \<Rightarrow> segmentation \<Rightarrow> contact list \<Rightarrow> run_state \<Rightarrow> contact list" where
  "secondary_fetched fuel w cfg config used s =
     (case getContactsFromList fuel w cfg (primaryListId config)
             (nat (max (count config * 3) 500)) s of
        None \<Rightarrow> []
      | Some (Inl e, s1) \<Rightarrow> []
      | Some (Inr cs, s1) \<Rightarrow>
          (case secondaryListId config of
             None \<Rightarrow> []
           | Some lid2 \<Rightarrow>
               if int (length (filter (\<lambda>vid. \<not> Set_has used vid) cs)) < count config
                  \<and> lid2 \<noteq> [] then
                 (case getContactsFromList fuel w cfg lid2
                         (nat (max ((count config
                                     - int (length (filter (\<lambda>vid. \<not> Set_has used vid) cs))) * 3)
                                 500)) s1 of
                    None \<Rightarrow> []
                  | Some (Inl e, s2) \<Rightarrow> []
                  | Some (Inr cs2, s2) \<Rightarrow> cs2)
               else []))"

text \<open>
  The selection in the words of the claim: the first \<open>n\<close> of the primary contacts not in
  the dedup set followed by the secondary contacts not in the dedup set.
\<close>

definition selection_by_claim :: "contact list \<Rightarrow> nat \<Rightarrow> contact list \<Rightarrow> contact list \<Rightarrow> contact list" where
  "selection_by_claim used n primary secondary =
     take n (filter (\<lambda>vid. vid \<notin> set used) primary @ filter (\<lambda>vid. vid \<notin> set used) secondary)"

text \<open>How the sequencer records the outcome of a campaign.\<close>

definition settle :: "error + campaign_result \<Rightarrow> settled" where
  "settle out = (case out of Inl err \<Rightarrow> Rejected err | Inr result \<Rightarrow> Fulfilled result)"

text \<open>
  What holds of the loop's variables between campaigns: every earlier selection is in
  the dedup set, a selection shares no contact with an earlier one, and the dedup set is
  no larger than the selections together.
\<close>

definition run_invariant :: "run_vars \<Rightarrow> bool" where
  "run_invariant rv =
     ((\<forall>sel \<in> set (selections rv). set sel \<subseteq> set (usedContacts rv))
      \<and> (\<forall>i j. i < j \<and> j < length (selections rv) \<longrightarrow>
             set (selections rv ! i) \<inter> set (selections rv ! j) = {})
      \<and> length (usedContacts rv) \<le> sum_list (map length (selections rv)))"

text \<open>
  Two campaigns of two contacts each: the first list holds 1, 2, 3 and the second list
  holds 2, 3, 4.
\<close>

definition env_two_campaigns :: env where
  "env_two_campaigns =
     scripted [page [1, 2, 3] None, created ''900'', acknowledged, acknowledged,
               acknowledged, acknowledged, page [2, 3, 4] None, created ''901'']"

text \<open>Three campaigns on empty lists; each list is created.\<close>

definition env_three_quick :: env where
  "env_three_quick =
     scripted [acknowledged, created ''900'', acknowledged, acknowledged,
               acknowledged, created ''901'', acknowledged, acknowledged,
               acknowledged, created ''902'']"

text \<open>No reply to a list creation carries a list id: every campaign throws.\<close>

definition env_no_list_id :: env where
  "env_no_list_id = scripted []"

definition one_second_apart :: settings where
  "one_second_apart =
     \<lparr>RETRIEVAL_BATCH_SIZE = 1000, MAX_RETRIES = 3, INTER_LIST_DELAY_MS = 1000\<rparr>"

text \<open>What a test reads off a finished run.\<close>

definition is_rejected :: "settled \<Rightarrow> bool" where
  "is_rejected r = (case r of Rejected err \<Rightarrow> True | Fulfilled result \<Rightarrow> False)"

definition timers :: "run_state \<Rightarrow> nat list" where
  "timers s = concat (map (\<lambda>e. case e of Timeout ms \<Rightarrow> [ms] | _ \<Rightarrow> []) (trace s))"

text \<open>
  The state after the first of the three quick campaigns and its delay, and the state in
  which the first campaign without a list id throws.
\<close>

definition state_after_first :: run_state where
  "state_after_first =
     \<lparr>calls = 4, clock = 1000,
      trace =
        [Get_memberships ''100'' 500 None,
         Post_lists ''Acme - Spring - acme.example - 3 Nov 2026'',
         Post_lists_search ''900'',
         CreatedList_create (list_doc 0 2 0 0),
         Timeout 960]\<rparr>"

definition state_first_failed :: run_state where
  "state_first_failed =
     \<lparr>calls = 2, clock = 20,
      trace =
        [Get_memberships ''100'' 500 None,
         Post_lists ''Acme - Spring - acme.example - 3 Nov 2026'']\<rparr>"

text \<open>
  A read that ends at the retry ceiling, by the replies it gets. A failed attempt is
  given by its status and message. The read goes through a number of rounds, each some
  failed attempts followed by a page, and ends with the last failed attempts.
\<close>

type_synonym failure = "nat option \<times> string"

definition failed :: "failure \<Rightarrow> reply" where
  "failed f = Fails (fst f) (snd f)"

definition script :: "(failure list \<times> payload) list \<Rightarrow> failure list \<Rightarrow> reply list" where
  "script rounds lastf =
     concat (map (\<lambda>(errs, p). map failed errs @ [Responds p]) rounds) @ map failed lastf"

text \<open>The calls numbered \<open>n\<close>, \<open>n + 1\<close>, ... get the replies \<open>rs\<close>.\<close>

fun answers :: "env \<Rightarrow> nat \<Rightarrow> reply list \<Rightarrow> bool" where
  "answers w n [] = True"
| "answers w n (r # rs) = (reply_of w n = r \<and> answers w (Suc n) rs)"

text \<open>The contacts of the pages of the rounds.\<close>

definition collected :: "(failure list \<times> payload) list \<Rightarrow> contact list" where
  "collected rounds = concat (map (\<lambda>(errs, p). data_results p) rounds)"

text \<open>
  \<open>k\<close> failed attempts of one request below the retry ceiling, after \<open>c\<close> consecutive
  errors: each is followed by a timer of \<open>min(1000 * 2^(consecutiveErrors - 1), 10000)\<close>
  ms, \<open>consecutiveErrors\<close> counting that failure.
\<close>

fun retry_events :: "event \<Rightarrow> nat \<Rightarrow> nat \<Rightarrow> event list" where
  "retry_events get c 0 = []"
| "retry_events get c (Suc k) =
     get # Timeout (min (1000 * 2 ^ (Suc c - 1)) 10000) # retry_events get (Suc c) k"

text \<open>
  The events of such a read when \<open>cs\<close> are the contacts collected so far and \<open>cursor\<close>
  the cursor of the last page. In every round the count of consecutive errors starts
  from 0; a page is followed by a timer of 200 ms; the last failed attempts run up to
  the ceiling, with no timer after the last one.
\<close>

fun read_events ::
  "settings \<Rightarrow> string \<Rightarrow> nat \<Rightarrow> contact list \<Rightarrow> string option
     \<Rightarrow> (failure list \<times> payload) list \<Rightarrow> event list" where
  "read_events cfg lid maxCount cs cursor [] =
     backoff_events
       (Get_memberships lid (min (RETRIEVAL_BATCH_SIZE cfg) (maxCount - length cs))
          (if truthy cursor then cursor else None))
       0 (MAX_RETRIES cfg)"
| "read_events cfg lid maxCount cs cursor ((errs, p) # rounds) =
     retry_events
       (Get_memberships lid (min (RETRIEVAL_BATCH_SIZE cfg) (maxCount - length cs))
          (if truthy cursor then cursor else None))
       0 (length errs)
     @ [Get_memberships lid (min (RETRIEVAL_BATCH_SIZE cfg) (maxCount - length cs))
          (if truthy cursor then cursor else None),
        Timeout 200]
     @ read_events cfg lid maxCount (cs @ data_results p) (paging_next_after p) rounds"

text \<open>
  An endpoint whose first call fails with a 500, whose second call returns contacts 1 and
  2 with a cursor, and whose later calls all fail with a 500.
\<close>

definition first_page :: payload where
  "first_page =
     \<lparr>data_results = [1, 2], paging_next_after = Some ''c1'', data_listId = None,
      data_deleted = None, hs_classic_list_id = None, processingType = None\<rparr>"

definition env_flaky :: env where
  "env_flaky =
     \<lparr>reply_of = (\<lambda>n. if n = 1 then Responds first_page
                       else Fails (Some 500) ''Server Error''),
      latency = (\<lambda>n. 0)\<rparr>"

text \<open>A configuration with a retry ceiling of 6, where the cap of 10 s is reached.\<close>

definition six_retries :: settings where
  "six_retries = \<lparr>RETRIEVAL_BATCH_SIZE = 1000, MAX_RETRIES = 6, INTER_LIST_DELAY_MS = 1000\<rparr>"

section \<open>Properties\<close>

subsection \<open>Slices\<close>

lemma slice_nat: "slice arr (int b) (int e) = take (e - b) (drop b arr)"
proof (cases "b < length arr")
  case True
  have "take (min e (length arr) - b) (drop b arr) = take (e - b) (drop b arr)"
    by (rule nth_equalityI) auto
  then show ?thesis
    using True by (simp add: slice_def relative_index_def Let_def min_absorb1)
next
  case False
  then show ?thesis
    by (simp add: slice_def relative_index_def Let_def)
qed

lemma slice_first: "0 \<le> n \<Longrightarrow> slice arr 0 n = take (nat n) arr"
  using slice_nat[of arr 0 "nat n"] by simp

lemma slice_subset: "set (slice arr b e) \<subseteq> set arr"
proof -
  have "set (slice arr b e) \<subseteq> set (drop (relative_index (length arr) b) arr)"
    unfolding slice_def Let_def by (rule set_take_subset)
  also have "\<dots> \<subseteq> set arr"
    by (rule set_drop_subset)
  finally show ?thesis .
qed

lemma slice_length: "length (slice arr b e) \<le> length arr"
  by (simp add: slice_def Let_def)

subsection \<open>Chunking\<close>

lemma chunk_while_step:
  "index < length arr \<Longrightarrow> 0 < sz \<Longrightarrow>
   chunk_while arr sz (index, result) =
     chunk_while arr sz (index + sz, result @ [take sz (drop index arr)])"
  by (subst chunk_while.simps) (simp add: slice_nat del: of_nat_add)

lemma chunk_while_done:
  "length arr \<le> index \<Longrightarrow> chunk_while arr sz (index, result) = (index, result)"
  by (subst chunk_while.simps) simp

text \<open>The chunks pushed so far always cover the array up to \<open>index\<close>.\<close>

lemma chunk_while_length:
  "length (concat result) = min index (length arr) \<Longrightarrow>
   length (concat (snd (chunk_while arr sz (index, result)))) =
     min (fst (chunk_while arr sz (index, result))) (length arr)"
proof (induction arr sz "(index, result)" arbitrary: index result rule: chunk_while.induct)
  case (1 arr sz index result)
  show ?case
  proof (cases "index < length arr \<and> slice arr (int index) (int (index + sz)) \<noteq> []")
    case True
    have "length (concat (result @ [slice arr (int index) (int (index + sz))]))
          = min (index + sz) (length arr)"
      using True "1.prems" by (auto simp: slice_nat simp del: of_nat_add)
    from "1.hyps"[OF _ _ this] True show ?thesis
      by (subst (1 2) chunk_while.simps) simp
  next
    case False
    then show ?thesis using "1.prems" by (subst (1 2) chunk_while.simps) auto
  qed
qed

lemma fold_chunk_while_length:
  "length (concat (snd st)) = min (fst st) (length arr) \<Longrightarrow>
   length (concat (snd (fold (chunk_while arr) sizes st))) =
     min (fst (fold (chunk_while arr) sizes st)) (length arr)"
proof (induction sizes arbitrary: st)
  case Nil
  then show ?case by simp
next
  case (Cons sz sizes)
  obtain i r where st: "st = (i, r)" by (cases st)
  have "length (concat (snd (chunk_while arr sz st))) = min (fst (chunk_while arr sz st)) (length arr)"
    using Cons.prems chunk_while_length[of r i arr sz] by (simp add: st)
  from Cons.IH[OF this] show ?case by simp
qed

lemma progressiveChunks_total:
  "sum_list (map length (progressiveChunks arr sizes)) \<le> length arr"
proof -
  have "length (concat (progressiveChunks arr sizes)) \<le> length arr"
    unfolding progressiveChunks_def
    using fold_chunk_while_length[of "(0, [])" arr sizes] by simp
  then show ?thesis by (simp add: length_concat)
qed

lemma sizes_650:
  assumes "length arr = 650"
  shows "map length (progressiveChunks arr default_sizes) = [300, 300, 50]"
proof -
  let ?c1 = "take 300 (drop 0 arr)" and ?c2 = "take 300 (drop 300 arr)"
    and ?c3 = "take 300 (drop 600 arr)"
  have a: "chunk_while arr 300 (0, []) = chunk_while arr 300 (300, [?c1])"
    using chunk_while_step[of 0 arr 300 "[]"] assms by simp
  have b: "chunk_while arr 300 (300, [?c1]) = chunk_while arr 300 (600, [?c1, ?c2])"
    using chunk_while_step[of 300 arr 300 "[?c1]"] assms by simp
  have c: "chunk_while arr 300 (600, [?c1, ?c2]) = chunk_while arr 300 (900, [?c1, ?c2, ?c3])"
    using chunk_while_step[of 600 arr 300 "[?c1, ?c2]"] assms by simp
  have d: "chunk_while arr sz (900, r) = (900, r)" for sz r
    using chunk_while_done[of arr 900 sz r] assms by simp
  have "fold (chunk_while arr) [300, 100, 50, 1] (0, []) = (900, [?c1, ?c2, ?c3])"
    by (simp only: fold_simps a b c d id_apply comp_apply)
  then show ?thesis
    by (simp add: progressiveChunks_def default_sizes_def assms)
qed

text \<open>
  C2. On 650 contacts \<open>progressiveChunks\<close> yields chunks of 300, 300 and 50: the inner
  loop of the first size only ends when the array is used up, so the sizes 100, 50 and 1
  are never reached and the sizes are not \<open>[300, 100, 50, 50, 50, 50, 50]\<close>.
\<close>

theorem C2_progressiveChunks_650:
  "map length (progressiveChunks (map int [0..<650]) default_sizes) = [300, 300, 50]"
  by (rule sizes_650) simp

subsection \<open>Paginated list reader\<close>

text \<open>
  C5. When the first membership request of \<open>getContactsFromList\<close> is answered with a
  404, the call throws the legacy-list error for that list id; the request is the only
  event it adds to the trace (no retry, no timer), and no contact list is returned.
\<close>

theorem C5_first_page_404_raises_legacy_error:
  assumes "reply_of w (calls s) = Fails (Some 404) msg" and "0 < maxCount"
  shows "getContactsFromList (Suc fuel) w cfg lid maxCount s =
           Some (Inl (Legacy_list lid),
                 s\<lparr>calls := calls s + 1, clock := clock s + latency w (calls s),
                   trace := trace s
                     @ [Get_memberships lid (min (RETRIEVAL_BATCH_SIZE cfg) maxCount) None]\<rparr>)"
  using assms
  by (simp add: getContactsFromList_def initial_fetch_vars_def request_def truthy_def
      after_loop_def getContactsFromLegacyList_def Let_def)

theorem C5_first_page_404_witness:
  "getContactsFromList 1 env_404 default_settings ''42'' 500 start_state =
     Some (Inl (Legacy_list ''42''),
           \<lparr>calls = 1, clock = 0, trace = [Get_memberships ''42'' 500 None]\<rparr>)"
  using C5_first_page_404_raises_legacy_error
          [of env_404 start_state "''Not Found''" 500 0 default_settings "''42''"]
  by (simp add: env_404_def start_state_def default_settings_def)

subsection \<open>Membership writer\<close>

text \<open>
  C7. \<open>addContactsToList\<close> returns 0 without any remote call when the contact array is
  missing or empty; and when verification is not skipped and \<open>verifyListIsManual\<close>
  answers false, it returns 0 and adds no membership-add call to the trace.
\<close>

theorem C7_addContactsToList_returns_zero:
  "(contacts = None \<or> contacts = Some [] \<longrightarrow>
      addContactsToList w cfg lid contacts skipVerification s = (0, s))
   \<and> (\<not> skipVerification \<and> \<not> fst (verifyListIsManual w lid s) \<longrightarrow>
      fst (addContactsToList w cfg lid contacts skipVerification s) = 0
      \<and> filter is_add (trace (snd (addContactsToList w cfg lid contacts skipVerification s)))
          = filter is_add (trace s))"
proof -
  obtain b s1 where v: "verifyListIsManual w lid s = (b, s1)"
    by (cases "verifyListIsManual w lid s")
  have t: "filter is_add (trace s1) = filter is_add (trace s)"
    using v by (auto simp: verifyListIsManual_def request_def is_add_def
        split: reply.splits if_splits)
  show ?thesis
    using v t by (cases contacts) (simp_all add: addContactsToList_def)
qed

theorem C7_addContactsToList_witness:
  "addContactsToList env_404 default_settings ''9'' None False start_state = (0, start_state)
   \<and> addContactsToList env_404 default_settings ''9'' (Some []) True start_state
       = (0, start_state)
   \<and> \<not> fst (verifyListIsManual env_404 ''9'' start_state)
   \<and> fst (addContactsToList env_404 default_settings ''9'' (Some [1, 2]) False start_state) = 0
   \<and> filter is_add
        (trace (snd (addContactsToList env_404 default_settings ''9'' (Some [1, 2]) False
                       start_state))) = []"
  using C7_addContactsToList_returns_zero
          [of None env_404 default_settings "''9''" False start_state]
        C7_addContactsToList_returns_zero
          [of "Some []" env_404 default_settings "''9''" True start_state]
        C7_addContactsToList_returns_zero
          [of "Some [1, 2]" env_404 default_settings "''9''" False start_state]
  by (simp add: verifyListIsManual_def request_def env_404_def start_state_def)

subsection \<open>Retries of the list reader\<close>

lemma fetch_loop_error_step:
  assumes "hasMore v" and "length (allContacts v) < maxCount"
    and "reply_of w (calls s) = Fails st msg" and "st \<noteq> Some 404"
  shows "fetch_loop (Suc f) w cfg lid maxCount v s =
     (if MAX_RETRIES cfg \<le> consecutiveErrors v + 1
      then Some (if allContacts v \<noteq> []
                 then Inr (v\<lparr>totalAttempts := totalAttempts v + 1,
                             consecutiveErrors := consecutiveErrors v + 1\<rparr>)
                 else Inl (Unable_to_fetch lid msg),
                 snd (request w (next_request cfg lid maxCount v) s))
      else fetch_loop f w cfg lid maxCount
             (v\<lparr>totalAttempts := totalAttempts v + 1,
                consecutiveErrors := consecutiveErrors v + 1\<rparr>)
             (setTimeout (min (1000 * 2 ^ consecutiveErrors v) 10000)
                (snd (request w (next_request cfg lid maxCount v) s))))"
  using assms by (simp add: request_def next_request_def Let_def)

lemma fetch_loop_errors:
  "hasMore v \<Longrightarrow> length (allContacts v) < maxCount \<Longrightarrow>
   consecutiveErrors v + k = MAX_RETRIES cfg \<Longrightarrow> 0 < k \<Longrightarrow> k \<le> fuel \<Longrightarrow>
   \<forall>i<k. other_error (reply_of w (calls s + i)) \<Longrightarrow>
   \<exists>s'. fetch_loop fuel w cfg lid maxCount v s =
          Some (if allContacts v \<noteq> []
                then Inr (v\<lparr>totalAttempts := totalAttempts v + k,
                            consecutiveErrors := MAX_RETRIES cfg\<rparr>)
                else Inl (Unable_to_fetch lid (message_of (reply_of w (calls s + k - 1)))), s')
        \<and> trace s' = trace s @ backoff_events (next_request cfg lid maxCount v) (consecutiveErrors v) k
        \<and> calls s' = calls s + k"
proof (induction k arbitrary: v s fuel)
  case 0
  then show ?case by simp
next
  case (Suc k)
  from Suc.prems(5) obtain f where fuel: "fuel = Suc f" and kf: "k \<le> f"
    by (cases fuel) auto
  from Suc.prems(6) have "other_error (reply_of w (calls s + 0))" by blast
  then obtain st msg where r: "reply_of w (calls s) = Fails st msg" and st: "st \<noteq> Some 404"
    by (auto simp: other_error_def split: reply.splits)
  let ?v2 = "v\<lparr>totalAttempts := totalAttempts v + 1, consecutiveErrors := consecutiveErrors v + 1\<rparr>"
  let ?s1 = "snd (request w (next_request cfg lid maxCount v) s)"
  note step = fetch_loop_error_step[OF Suc.prems(1,2) r st, where f = f and cfg = cfg and lid = lid]
  show ?case
  proof (cases "k = 0")
    case True
    with Suc.prems(3) have "MAX_RETRIES cfg = consecutiveErrors v + 1" by simp
    then show ?thesis
      using step True r by (simp add: fuel request_def message_of_def)
  next
    case False
    with Suc.prems(3) have lt: "\<not> MAX_RETRIES cfg \<le> consecutiveErrors v + 1" by simp
    let ?s2 = "setTimeout (min (1000 * 2 ^ consecutiveErrors v) 10000) ?s1"
    have c2: "calls ?s2 = calls s + 1" by (simp add: setTimeout_def request_def)
    have t2: "trace ?s2 = trace s @ [next_request cfg lid maxCount v,
                 Timeout (min (1000 * 2 ^ consecutiveErrors v) 10000)]"
      by (simp add: setTimeout_def request_def)
    have errs: "\<forall>i<k. other_error (reply_of w (calls ?s2 + i))"
      using Suc.prems(6) by (auto simp: c2)
    have "\<exists>s'. fetch_loop f w cfg lid maxCount ?v2 ?s2 =
          Some (if allContacts ?v2 \<noteq> []
                then Inr (?v2\<lparr>totalAttempts := totalAttempts ?v2 + k,
                            consecutiveErrors := MAX_RETRIES cfg\<rparr>)
                else Inl (Unable_to_fetch lid (message_of (reply_of w (calls ?s2 + k - 1)))), s')
        \<and> trace s' = trace ?s2 @ backoff_events (next_request cfg lid maxCount ?v2) (consecutiveErrors ?v2) k
        \<and> calls s' = calls ?s2 + k"
      using Suc.prems(1,2,3) False kf errs by (intro Suc.IH) simp_all
    then obtain s' where
      res: "fetch_loop f w cfg lid maxCount ?v2 ?s2 =
          Some (if allContacts ?v2 \<noteq> []
                then Inr (?v2\<lparr>totalAttempts := totalAttempts ?v2 + k,
                            consecutiveErrors := MAX_RETRIES cfg\<rparr>)
                else Inl (Unable_to_fetch lid (message_of (reply_of w (calls ?s2 + k - 1)))), s')"
      and tr: "trace s' = trace ?s2 @ backoff_events (next_request cfg lid maxCount ?v2) (consecutiveErrors ?v2) k"
      and cl: "calls s' = calls ?s2 + k"
      by blast
    have nr: "next_request cfg lid maxCount
                (v\<lparr>totalAttempts := a, consecutiveErrors := b\<rparr>)
              = next_request cfg lid maxCount v" for a b
      by (simp add: next_request_def)
    have "fetch_loop fuel w cfg lid maxCount v s = fetch_loop f w cfg lid maxCount ?v2 ?s2"
      using step lt by (simp add: fuel)
    then show ?thesis
      using res tr cl False by (simp add: c2 t2 nr)
  qed
qed

lemma answers_append:
  "answers w n (xs @ ys) = (answers w n xs \<and> answers w (n + length xs) ys)"
  by (induction xs arbitrary: n) auto

lemma answers_failed:
  "answers w n (map failed errs) \<Longrightarrow> \<forall>f \<in> set errs. fst f \<noteq> Some 404 \<Longrightarrow> i < length errs \<Longrightarrow>
   other_error (reply_of w (n + i)) \<and> message_of (reply_of w (n + i)) = snd (errs ! i)"
proof (induction errs arbitrary: n i)
  case Nil
  then show ?case by simp
next
  case (Cons f errs)
  show ?case
  proof (cases i)
    case 0
    with Cons.prems show ?thesis
      by (simp add: failed_def other_error_def message_of_def)
  next
    case (Suc j)
    with Cons.prems Cons.IH[of "Suc n" j] show ?thesis
      by simp
  qed
qed

lemma fetch_loop_retries:
  "hasMore v \<Longrightarrow> length (allContacts v) < maxCount \<Longrightarrow>
   consecutiveErrors v + k < MAX_RETRIES cfg \<Longrightarrow>
   \<forall>i<k. other_error (reply_of w (calls s + i)) \<Longrightarrow>
   \<exists>s'. fetch_loop (k + fuel) w cfg lid maxCount v s =
          fetch_loop fuel w cfg lid maxCount
            (v\<lparr>totalAttempts := totalAttempts v + k,
               consecutiveErrors := consecutiveErrors v + k\<rparr>) s'
        \<and> trace s' = trace s @ retry_events (next_request cfg lid maxCount v) (consecutiveErrors v) k
        \<and> calls s' = calls s + k"
proof (induction k arbitrary: v s)
  case 0
  have "fetch_loop fuel w cfg lid maxCount v s = fetch_loop fuel w cfg lid maxCount v s
        \<and> trace s = trace s \<and> calls s = calls s"
    by simp
  then show ?case by auto
next
  case (Suc k)
  from Suc.prems(4) have "other_error (reply_of w (calls s + 0))" by blast
  then obtain st msg where r: "reply_of w (calls s) = Fails st msg" and st: "st \<noteq> Some 404"
    by (auto simp: other_error_def split: reply.splits)
  let ?v2 = "v\<lparr>totalAttempts := totalAttempts v + 1, consecutiveErrors := consecutiveErrors v + 1\<rparr>"
  let ?s1 = "snd (request w (next_request cfg lid maxCount v) s)"
  let ?s2 = "setTimeout (min (1000 * 2 ^ consecutiveErrors v) 10000) ?s1"
  note step = fetch_loop_error_step[OF Suc.prems(1,2) r st,
      where f = "k + fuel" and cfg = cfg and lid = lid]
  from Suc.prems(3) have lt: "\<not> MAX_RETRIES cfg \<le> consecutiveErrors v + 1" by simp
  have c2: "calls ?s2 = calls s + 1" by (simp add: setTimeout_def request_def)
  have t2: "trace ?s2 = trace s @ [next_request cfg lid maxCount v,
               Timeout (min (1000 * 2 ^ consecutiveErrors v) 10000)]"
    by (simp add: setTimeout_def request_def)
  have errs: "\<forall>i<k. other_error (reply_of w (calls ?s2 + i))"
    using Suc.prems(4) by (auto simp: c2)
  have "\<exists>s'. fetch_loop (k + fuel) w cfg lid maxCount ?v2 ?s2 =
          fetch_loop fuel w cfg lid maxCount
            (?v2\<lparr>totalAttempts := totalAttempts ?v2 + k,
               consecutiveErrors := consecutiveErrors ?v2 + k\<rparr>) s'
        \<and> trace s' = trace ?s2 @ retry_events (next_request cfg lid maxCount ?v2) (consecutiveErrors ?v2) k
        \<and> calls s' = calls ?s2 + k"
    using Suc.prems(1,2,3) errs by (intro Suc.IH) simp_all
  then obtain s' where
    res: "fetch_loop (k + fuel) w cfg lid maxCount ?v2 ?s2 =
          fetch_loop fuel w cfg lid maxCount
            (?v2\<lparr>totalAttempts := totalAttempts ?v2 + k,
               consecutiveErrors := consecutiveErrors ?v2 + k\<rparr>) s'"
    and tr: "trace s' = trace ?s2 @ retry_events (next_request cfg lid maxCount ?v2) (consecutiveErrors ?v2) k"
    and cl: "calls s' = calls ?s2 + k"
    by blast
  have nr: "next_request cfg lid maxCount
              (v\<lparr>totalAttempts := a, consecutiveErrors := b\<rparr>)
            = next_request cfg lid maxCount v" for a b
    by (simp add: next_request_def)
  have "fetch_loop (Suc k + fuel) w cfg lid maxCount v s
        = fetch_loop (k + fuel) w cfg lid maxCount ?v2 ?s2"
    using step lt by simp
  then have eq: "fetch_loop (Suc k + fuel) w cfg lid maxCount v s =
          fetch_loop fuel w cfg lid maxCount
            (v\<lparr>totalAttempts := totalAttempts v + Suc k,
               consecutiveErrors := consecutiveErrors v + Suc k\<rparr>) s'"
    using res by (simp del: fetch_loop.simps)
  have tr': "trace s' = trace s @ retry_events (next_request cfg lid maxCount v)
                                   (consecutiveErrors v) (Suc k)"
    using tr by (simp add: t2 nr)
  have cl': "calls s' = calls s + Suc k"
    using cl by (simp add: c2)
  from eq tr' cl' show ?case by blast
qed

lemma fetch_loop_page:
  assumes "hasMore v" and "length (allContacts v) < maxCount"
    and "reply_of w (calls s) = Responds p" and "truthy (paging_next_after p)"
    and "length (allContacts v) + length (data_results p) < maxCount"
  shows "fetch_loop (Suc fuel) w cfg lid maxCount v s =
     fetch_loop fuel w cfg lid maxCount
       (v\<lparr>totalAttempts := totalAttempts v + 1, v3Success := True,
          allContacts := allContacts v @ data_results p, hasMore := True,
          after := paging_next_after p, consecutiveErrors := 0\<rparr>)
       (setTimeout 200 (snd (request w (next_request cfg lid maxCount v) s)))"
  using assms by (simp add: request_def next_request_def Let_def)

lemma script_Nil: "script [] lastf = map failed lastf"
  by (simp add: script_def)

lemma script_Cons:
  "script ((errs, p) # rounds) lastf = map failed errs @ Responds p # script rounds lastf"
  by (simp add: script_def)

lemma collected_Cons: "collected ((errs, p) # rounds) = data_results p @ collected rounds"
  by (simp add: collected_def)

lemma fetch_loop_rounds:
  "hasMore v \<Longrightarrow> consecutiveErrors v = 0 \<Longrightarrow>
   \<forall>(errs, p) \<in> set rounds. length errs < MAX_RETRIES cfg
       \<and> (\<forall>f \<in> set errs. fst f \<noteq> Some 404) \<and> truthy (paging_next_after p) \<Longrightarrow>
   length (allContacts v) + length (collected rounds) < maxCount \<Longrightarrow>
   length lastf = MAX_RETRIES cfg \<Longrightarrow> 0 < MAX_RETRIES cfg \<Longrightarrow>
   \<forall>f \<in> set lastf. fst f \<noteq> Some 404 \<Longrightarrow>
   answers w (calls s) (script rounds lastf) \<Longrightarrow>
   length (script rounds lastf) \<le> fuel \<Longrightarrow>
   \<exists>v' s'. fetch_loop fuel w cfg lid maxCount v s =
            Some (if allContacts v @ collected rounds = []
                  then Inl (Unable_to_fetch lid (snd (last lastf))) else Inr v', s')
          \<and> allContacts v' = allContacts v @ collected rounds
          \<and> isLegacyList v' = isLegacyList v
          \<and> trace s' = trace s @ read_events cfg lid maxCount (allContacts v) (after v) rounds
          \<and> calls s' = calls s + length (script rounds lastf)"
proof (induction rounds arbitrary: v s fuel)
  case Nil
  let ?k = "MAX_RETRIES cfg"
  have len: "length (allContacts v) < maxCount"
    using Nil.prems(4) by simp
  have ans: "answers w (calls s) (map failed lastf)"
    using Nil.prems(8) by (simp add: script_Nil)
  have errs: "\<forall>i<?k. other_error (reply_of w (calls s + i))"
    using answers_failed[OF ans Nil.prems(7)] Nil.prems(5) by simp
  have "message_of (reply_of w (calls s + (?k - 1))) = snd (lastf ! (?k - 1))"
    using answers_failed[OF ans Nil.prems(7), of "?k - 1"] Nil.prems(5,6) by simp
  moreover have "lastf \<noteq> []"
    using Nil.prems(5,6) by auto
  then have "last lastf = lastf ! (?k - 1)"
    using Nil.prems(5) by (simp add: last_conv_nth)
  moreover have "calls s + ?k - 1 = calls s + (?k - 1)"
    using Nil.prems(6) by simp
  ultimately have msg: "message_of (reply_of w (calls s + ?k - 1)) = snd (last lastf)"
    by simp
  have fuel: "?k \<le> fuel"
    using Nil.prems(5,9) by (simp add: script_Nil)
  have ce: "consecutiveErrors v + ?k = MAX_RETRIES cfg"
    using Nil.prems(2) by simp
  from fetch_loop_errors[OF Nil.prems(1) len ce Nil.prems(6) fuel errs, where lid = lid]
  obtain s' where
    res: "fetch_loop fuel w cfg lid maxCount v s =
          Some (if allContacts v \<noteq> []
                then Inr (v\<lparr>totalAttempts := totalAttempts v + ?k,
                            consecutiveErrors := MAX_RETRIES cfg\<rparr>)
                else Inl (Unable_to_fetch lid (message_of (reply_of w (calls s + ?k - 1)))), s')"
    and tr: "trace s' = trace s @ backoff_events (next_request cfg lid maxCount v)
                                   (consecutiveErrors v) ?k"
    and cl: "calls s' = calls s + ?k"
    by blast
  let ?v' = "v\<lparr>totalAttempts := totalAttempts v + ?k, consecutiveErrors := MAX_RETRIES cfg\<rparr>"
  have r1: "fetch_loop fuel w cfg lid maxCount v s =
            Some (if allContacts v @ collected [] = []
                  then Inl (Unable_to_fetch lid (snd (last lastf))) else Inr ?v', s')"
    using res msg by (simp add: collected_def del: fetch_loop.simps)
  have r2: "allContacts ?v' = allContacts v @ collected []"
    by (simp add: collected_def)
  have r3: "isLegacyList ?v' = isLegacyList v"
    by simp
  have r4: "trace s' = trace s @ read_events cfg lid maxCount (allContacts v) (after v) []"
    using tr Nil.prems(2) by (simp add: next_request_def)
  have r5: "calls s' = calls s + length (script [] lastf)"
    using cl Nil.prems(5) by (simp add: script_Nil)
  from r1 r2 r3 r4 r5 show ?case by blast
next
  case (Cons round rounds)
  obtain errs p where round: "round = (errs, p)"
    by (cases round)
  let ?k = "length errs"
  from Cons.prems(3) have below: "?k < MAX_RETRIES cfg"
    and non404: "\<forall>f \<in> set errs. fst f \<noteq> Some 404"
    and cursor: "truthy (paging_next_after p)"
    and rest: "\<forall>(errs, p) \<in> set rounds. length errs < MAX_RETRIES cfg
                \<and> (\<forall>f \<in> set errs. fst f \<noteq> Some 404) \<and> truthy (paging_next_after p)"
    by (simp_all add: round)
  from Cons.prems(4) have len: "length (allContacts v) < maxCount"
    and len1: "length (allContacts v) + length (data_results p) < maxCount"
    and len2: "length (allContacts v @ data_results p) + length (collected rounds) < maxCount"
    by (simp_all add: round collected_Cons)
  from Cons.prems(8) have a1: "answers w (calls s) (map failed errs)"
    and a2: "reply_of w (calls s + ?k) = Responds p"
    and a3: "answers w (Suc (calls s + ?k)) (script rounds lastf)"
    by (simp_all add: round script_Cons answers_append)
  from Cons.prems(9) obtain fuel' where fuel: "fuel = ?k + Suc fuel'"
    and fuel': "length (script rounds lastf) \<le> fuel'"
    by (auto simp: round script_Cons dest!: le_Suc_ex)
  have errs: "\<forall>i<?k. other_error (reply_of w (calls s + i))"
    using answers_failed[OF a1 non404] by simp
  have ce: "consecutiveErrors v + ?k < MAX_RETRIES cfg"
    using below Cons.prems(2) by simp
  let ?v1 = "v\<lparr>totalAttempts := totalAttempts v + ?k,
               consecutiveErrors := consecutiveErrors v + ?k\<rparr>"
  from fetch_loop_retries[OF Cons.prems(1) len ce errs, where fuel = "Suc fuel'" and lid = lid]
  obtain s1 where
    e1: "fetch_loop (?k + Suc fuel') w cfg lid maxCount v s =
         fetch_loop (Suc fuel') w cfg lid maxCount ?v1 s1"
    and t1: "trace s1 = trace s @ retry_events (next_request cfg lid maxCount v)
                                    (consecutiveErrors v) ?k"
    and c1: "calls s1 = calls s + ?k"
    by blast
  let ?s3 = "setTimeout 200 (snd (request w (next_request cfg lid maxCount ?v1) s1))"
  let ?v3 = "?v1\<lparr>totalAttempts := totalAttempts ?v1 + 1, v3Success := True,
                allContacts := allContacts ?v1 @ data_results p, hasMore := True,
                after := paging_next_after p, consecutiveErrors := 0\<rparr>"
  have h1: "hasMore ?v1"
    using Cons.prems(1) by simp
  have l1: "length (allContacts ?v1) < maxCount"
    using len by simp
  have p1: "reply_of w (calls s1) = Responds p"
    using a2 by (simp add: c1)
  have l2: "length (allContacts ?v1) + length (data_results p) < maxCount"
    using len1 by simp
  have e2: "fetch_loop (Suc fuel') w cfg lid maxCount ?v1 s1 =
            fetch_loop fuel' w cfg lid maxCount ?v3 ?s3"
    by (rule fetch_loop_page[OF h1 l1 p1 cursor l2])
  have c3: "calls ?s3 = Suc (calls s + ?k)"
    by (simp add: setTimeout_def request_def c1)
  have nr: "next_request cfg lid maxCount
              (v\<lparr>totalAttempts := a, consecutiveErrors := b\<rparr>)
            = next_request cfg lid maxCount v" for a b
    by (simp add: next_request_def)
  have t3: "trace ?s3 = trace s @ retry_events (next_request cfg lid maxCount v) 0 ?k
                        @ [next_request cfg lid maxCount v, Timeout 200]"
    using t1 Cons.prems(2) by (simp add: setTimeout_def request_def nr)
  have "\<exists>v' s'. fetch_loop fuel' w cfg lid maxCount ?v3 ?s3 =
            Some (if allContacts ?v3 @ collected rounds = []
                  then Inl (Unable_to_fetch lid (snd (last lastf))) else Inr v', s')
          \<and> allContacts v' = allContacts ?v3 @ collected rounds
          \<and> isLegacyList v' = isLegacyList ?v3
          \<and> trace s' = trace ?s3 @ read_events cfg lid maxCount (allContacts ?v3) (after ?v3) rounds
          \<and> calls s' = calls ?s3 + length (script rounds lastf)"
  proof (rule Cons.IH)
    show "hasMore ?v3" by simp
    show "consecutiveErrors ?v3 = 0" by simp
    show "\<forall>(errs, p) \<in> set rounds. length errs < MAX_RETRIES cfg
            \<and> (\<forall>f \<in> set errs. fst f \<noteq> Some 404) \<and> truthy (paging_next_after p)"
      by (rule rest)
    show "length (allContacts ?v3) + length (collected rounds) < maxCount"
      using len2 by simp
    show "length lastf = MAX_RETRIES cfg" by (rule Cons.prems(5))
    show "0 < MAX_RETRIES cfg" by (rule Cons.prems(6))
    show "\<forall>f \<in> set lastf. fst f \<noteq> Some 404" by (rule Cons.prems(7))
    show "answers w (calls ?s3) (script rounds lastf)"
      using a3 by (simp only: c3)
    show "length (script rounds lastf) \<le> fuel'" by (rule fuel')
  qed
  then obtain v' s' where
    res: "fetch_loop fuel' w cfg lid maxCount ?v3 ?s3 =
            Some (if allContacts ?v3 @ collected rounds = []
                  then Inl (Unable_to_fetch lid (snd (last lastf))) else Inr v', s')"
    and ac: "allContacts v' = allContacts ?v3 @ collected rounds"
    and il: "isLegacyList v' = isLegacyList ?v3"
    and tr: "trace s' = trace ?s3 @ read_events cfg lid maxCount (allContacts ?v3) (after ?v3) rounds"
    and cl: "calls s' = calls ?s3 + length (script rounds lastf)"
    by blast
  have all: "allContacts ?v3 @ collected rounds = allContacts v @ collected (round # rounds)"
    by (simp add: round collected_Cons)
  have r1: "fetch_loop fuel w cfg lid maxCount v s =
            Some (if allContacts v @ collected (round # rounds) = []
                  then Inl (Unable_to_fetch lid (snd (last lastf))) else Inr v', s')"
    unfolding fuel e1 e2 res all ..
  have r2: "allContacts v' = allContacts v @ collected (round # rounds)"
    using ac all by simp
  have r3: "isLegacyList v' = isLegacyList v"
    using il by simp
  have r4: "trace s' = trace s @ read_events cfg lid maxCount (allContacts v) (after v)
                                   (round # rounds)"
  proof -
    have "trace s' = (trace s @ retry_events (next_request cfg lid maxCount v) 0 ?k
                        @ [next_request cfg lid maxCount v, Timeout 200])
                     @ read_events cfg lid maxCount (allContacts ?v3) (after ?v3) rounds"
      using tr by (simp only: t3)
    then show ?thesis
      by (simp add: round next_request_def)
  qed
  have r5: "calls s' = calls s + length (script (round # rounds) lastf)"
    using cl by (simp add: c3 round script_Cons)
  from r1 r2 r3 r4 r5 show ?case by blast
qed

text \<open>
  C6. Take any read by \<open>getContactsFromList\<close> that gets, from its first request on: a
  number of rounds, each fewer than \<open>MAX_RETRIES\<close> errors other than 404 followed by a
  page that carries a cursor and leaves the contacts below \<open>maxCount\<close>; and then
  \<open>MAX_RETRIES\<close> errors other than 404 in a row. After every failed attempt but the
  last the reader waits \<open>min(1000 * 2^(consecutiveErrors - 1), 10000)\<close> ms and repeats the
  request, \<open>consecutiveErrors\<close> counting the failures since the last page (a page resets
  it to 0). At the last failure, the \<open>MAX_RETRIES\<close>-th in a row, the function returns
  the contacts of the pages, de-duplicated, when there are any, and otherwise throws the
  error that carries the list id and the message of the last failure; it issues no
  further request and no further timer.
\<close>

theorem C6_retry_backoff_then_partial_or_throw:
  assumes "\<forall>(errs, p) \<in> set rounds. length errs < MAX_RETRIES cfg
             \<and> (\<forall>f \<in> set errs. fst f \<noteq> Some 404) \<and> truthy (paging_next_after p)"
    and "length (collected rounds) < maxCount"
    and "length lastf = MAX_RETRIES cfg" and "0 < MAX_RETRIES cfg"
    and "\<forall>f \<in> set lastf. fst f \<noteq> Some 404"
    and "answers w (calls s) (script rounds lastf)"
    and "length (script rounds lastf) \<le> fuel"
  shows "\<exists>s'. getContactsFromList fuel w cfg lid maxCount s =
            Some (if collected rounds = []
                  then Inl (Unable_to_fetch lid (snd (last lastf)))
                  else Inr (new_Set (collected rounds)), s')
          \<and> trace s' = trace s @ read_events cfg lid maxCount [] None rounds
          \<and> calls s' = calls s + length (script rounds lastf)"
proof -
  have "\<exists>v' s'. fetch_loop fuel w cfg lid maxCount initial_fetch_vars s =
            Some (if allContacts initial_fetch_vars @ collected rounds = []
                  then Inl (Unable_to_fetch lid (snd (last lastf))) else Inr v', s')
          \<and> allContacts v' = allContacts initial_fetch_vars @ collected rounds
          \<and> isLegacyList v' = isLegacyList initial_fetch_vars
          \<and> trace s' = trace s @ read_events cfg lid maxCount (allContacts initial_fetch_vars)
                                   (after initial_fetch_vars) rounds
          \<and> calls s' = calls s + length (script rounds lastf)"
  proof (rule fetch_loop_rounds)
    show "hasMore initial_fetch_vars"
      by (simp add: initial_fetch_vars_def)
    show "consecutiveErrors initial_fetch_vars = 0"
      by (simp add: initial_fetch_vars_def)
    show "length (allContacts initial_fetch_vars) + length (collected rounds) < maxCount"
      using assms(2) by (simp add: initial_fetch_vars_def)
  qed (rule assms)+
  then obtain v' s' where
    loop: "fetch_loop fuel w cfg lid maxCount initial_fetch_vars s =
            Some (if collected rounds = []
                  then Inl (Unable_to_fetch lid (snd (last lastf))) else Inr v', s')"
    and ac: "allContacts v' = collected rounds"
    and il: "\<not> isLegacyList v'"
    and tr: "trace s' = trace s @ read_events cfg lid maxCount [] None rounds"
    and cl: "calls s' = calls s + length (script rounds lastf)"
    by (auto simp: initial_fetch_vars_def)
  have "getContactsFromList fuel w cfg lid maxCount s =
            Some (if collected rounds = []
                  then Inl (Unable_to_fetch lid (snd (last lastf)))
                  else Inr (new_Set (collected rounds)), s')"
  proof (cases "collected rounds = []")
    case True
    then show ?thesis
      using loop by (simp add: getContactsFromList_def)
  next
    case False
    then have "after_loop lid maxCount v' = Inr (new_Set (collected rounds))"
      using ac il by (simp add: after_loop_def)
    then show ?thesis
      using loop False by (simp add: getContactsFromList_def)
  qed
  with tr cl show ?thesis by blast
qed

theorem C6_retry_backoff_witness:
  "(\<exists>s'. getContactsFromList 5 env_flaky default_settings ''42'' 500 start_state =
            Some (Inr [1, 2], s')
        \<and> trace s' = [Get_memberships ''42'' 500 None, Timeout 1000,
                       Get_memberships ''42'' 500 None, Timeout 200,
                       Get_memberships ''42'' 498 (Some ''c1''), Timeout 1000,
                       Get_memberships ''42'' 498 (Some ''c1''), Timeout 2000,
                       Get_memberships ''42'' 498 (Some ''c1'')]
        \<and> calls s' = 5)
   \<and> (\<exists>s'. getContactsFromList 3 env_500 default_settings ''42'' 500 start_state =
            Some (Inl (Unable_to_fetch ''42'' ''Server Error''), s')
        \<and> trace s' = [Get_memberships ''42'' 500 None, Timeout 1000,
                       Get_memberships ''42'' 500 None, Timeout 2000,
                       Get_memberships ''42'' 500 None]
        \<and> calls s' = 3)
   \<and> (\<exists>s'. getContactsFromList 6 env_500 six_retries ''42'' 500 start_state =
            Some (Inl (Unable_to_fetch ''42'' ''Server Error''), s')
        \<and> timers s' = [1000, 2000, 4000, 8000, 10000]
        \<and> calls s' = 6)"
proof -
  note defs = default_settings_def env_500_def env_flaky_def first_page_def start_state_def
      script_def failed_def collected_def truthy_def new_Set_def Set_add_def
      numeral_3_eq_3
  have five: "(5::nat) = Suc (Suc (Suc (Suc (Suc 0))))"
    by simp
  have partial: "\<exists>s'. getContactsFromList 5 env_flaky default_settings ''42'' 500 start_state =
            Some (Inr [1, 2], s')
        \<and> trace s' = [Get_memberships ''42'' 500 None, Timeout 1000,
                       Get_memberships ''42'' 500 None, Timeout 200,
                       Get_memberships ''42'' 498 (Some ''c1''), Timeout 1000,
                       Get_memberships ''42'' 498 (Some ''c1''), Timeout 2000,
                       Get_memberships ''42'' 498 (Some ''c1'')]
        \<and> calls s' = 5"
    using C6_retry_backoff_then_partial_or_throw
            [where rounds = "[([(Some 500, ''Server Error'')], first_page)]"
               and lastf = "[(Some 500, ''Server Error''), (Some 500, ''Server Error''),
                             (Some 500, ''Server Error'')]"
               and cfg = default_settings and maxCount = 500 and fuel = 5
               and w = env_flaky and s = start_state and lid = "''42''"]
    by (simp add: defs five)
  have none: "\<exists>s'. getContactsFromList 3 env_500 default_settings ''42'' 500 start_state =
            Some (Inl (Unable_to_fetch ''42'' ''Server Error''), s')
        \<and> trace s' = [Get_memberships ''42'' 500 None, Timeout 1000,
                       Get_memberships ''42'' 500 None, Timeout 2000,
                       Get_memberships ''42'' 500 None]
        \<and> calls s' = 3"
    using C6_retry_backoff_then_partial_or_throw
            [where rounds = "[]"
               and lastf = "[(Some 500, ''Server Error''), (Some 500, ''Server Error''),
                             (Some 500, ''Server Error'')]"
               and cfg = default_settings and maxCount = 500 and fuel = 3
               and w = env_500 and s = start_state and lid = "''42''"]
    by (simp add: defs)
  have six: "(6::nat) = Suc (Suc (Suc (Suc (Suc (Suc 0)))))"
    by simp
  have "\<exists>s'. getContactsFromList 6 env_500 six_retries ''42'' 500 start_state =
            Some (Inl (Unable_to_fetch ''42'' ''Server Error''), s')
        \<and> trace s' = [Get_memberships ''42'' 500 None, Timeout 1000,
                       Get_memberships ''42'' 500 None, Timeout 2000,
                       Get_memberships ''42'' 500 None, Timeout 4000,
                       Get_memberships ''42'' 500 None, Timeout 8000,
                       Get_memberships ''42'' 500 None, Timeout 10000,
                       Get_memberships ''42'' 500 None]
        \<and> calls s' = 6"
    using C6_retry_backoff_then_partial_or_throw
            [where rounds = "[]"
               and lastf = "[(Some 500, ''Server Error''), (Some 500, ''Server Error''),
                             (Some 500, ''Server Error''), (Some 500, ''Server Error''),
                             (Some 500, ''Server Error''), (Some 500, ''Server Error'')]"
               and cfg = six_retries and maxCount = 500 and fuel = 6
               and w = env_500 and s = start_state and lid = "''42''"]
    by (simp add: defs six six_retries_def)
  then obtain s' where
    "getContactsFromList 6 env_500 six_retries ''42'' 500 start_state =
            Some (Inl (Unable_to_fetch ''42'' ''Server Error''), s')"
    and "trace s' = [Get_memberships ''42'' 500 None, Timeout 1000,
                       Get_memberships ''42'' 500 None, Timeout 2000,
                       Get_memberships ''42'' 500 None, Timeout 4000,
                       Get_memberships ''42'' 500 None, Timeout 8000,
                       Get_memberships ''42'' 500 None, Timeout 10000,
                       Get_memberships ''42'' 500 None]"
    and "calls s' = 6"
    by blast
  then have capped: "\<exists>s'. getContactsFromList 6 env_500 six_retries ''42'' 500 start_state =
            Some (Inl (Unable_to_fetch ''42'' ''Server Error''), s')
        \<and> timers s' = [1000, 2000, 4000, 8000, 10000]
        \<and> calls s' = 6"
    by (simp add: timers_def)
  from partial none capped show ?thesis by blast
qed


subsection \<open>What a campaign computes\<close>

lemma put_chunks_le:
  "fst (put_chunks w cfg lid chunks n s) \<le> n + sum_list (map length chunks)"
proof (induction chunks arbitrary: n s)
  case Nil
  then show ?case by simp
next
  case (Cons chunk chunks)
  obtain ok s1 where p: "put_chunk w cfg lid chunk 0 s = (ok, s1)"
    by (cases "put_chunk w cfg lid chunk 0 s")
  show ?case
    using Cons.IH[of "n + length chunk" s1] Cons.IH[of n s1] by (auto simp: p)
qed


lemma addContactsToList_le:
  "fst (addContactsToList w cfg lid contacts skip s) \<le> (case contacts of None \<Rightarrow> 0 | Some cs \<Rightarrow> length cs)"
proof (cases contacts)
  case None
  then show ?thesis by (simp add: addContactsToList_def)
next
  case (Some cs)
  obtain b s1 where v: "(if \<not> skip then verifyListIsManual w lid s else (True, s)) = (b, s1)"
    by (cases "if \<not> skip then verifyListIsManual w lid s else (True, s)")
  have "fst (put_chunks w cfg lid (progressiveChunks cs default_sizes) 0 s1) \<le> length cs"
    using put_chunks_le[of w cfg lid "progressiveChunks cs default_sizes" 0 s1]
      progressiveChunks_total[of cs default_sizes] by simp
  then show ?thesis
    using Some v by (simp add: addContactsToList_def)
qed

lemma populate_le:
  "populate w cfg config lid sel s = Some (n, s') \<Longrightarrow> n \<le> length sel"
proof -
  assume a: "populate w cfg config lid sel s = Some (n, s')"
  show ?thesis
  proof (cases "sel = []")
    case True
    with a show ?thesis by (simp add: populate_def)
  next
    case False
    define s1 where "s1 = (case sendContactListId config of
                     None \<Rightarrow> s
                   | Some sendId \<Rightarrow>
                       if sendId \<noteq> []
                       then snd (addContactsToList w cfg sendId (Some sel) True s)
                       else s)"
    obtain m s2 where ad: "addContactsToList w cfg lid (Some sel) True s1 = (m, s2)"
      by (cases "addContactsToList w cfg lid (Some sel) True s1")
    have "m \<le> length sel"
      using addContactsToList_le[of w cfg lid "Some sel" True s1] by (simp add: ad)
    moreover have "n = m"
      using a False ad unfolding populate_def s1_def[symmetric]
      by (simp add: Let_def split: option.splits)
    ultimately show ?thesis by simp
  qed
qed

lemma fetch_sources_facts:
  assumes "fetch_sources fuel w cfg config used s = Some (src, s1)"
  shows "primaryAfterFilter src = length (primaryContacts src)"
    and "secondaryAfterFilter src = length (secondaryContacts src)"
    and "primaryAfterFilter src \<le> primaryBeforeFilter src"
    and "secondaryAfterFilter src \<le> secondaryBeforeFilter src"
    and "set (primaryContacts src) \<inter> set used = {}"
    and "set (secondaryContacts src) \<inter> set used = {}"
  using assms
  by (auto simp: fetch_sources_def Let_def Set_has_def
      split: option.splits sum.splits prod.splits if_splits)

text \<open>What a campaign that returns has computed.\<close>

lemma processSingleCampaign_returns:
  assumes "processSingleCampaign fuel w cfg config d m used s = Some (Inr r, sel, used', s')"
  shows "\<exists>src s1 newList s2 s3 p.
           fetch_sources fuel w cfg config used s = Some (src, s1)
         \<and> sel = slice (primaryContacts src @ secondaryContacts src) 0 (count config)
         \<and> used' = foldl Set_add used sel
         \<and> createHubSpotList w (list_name config) s1 = (Inr newList, s2)
         \<and> populate w cfg config (new_listId newList) sel s2 = Some (contactCount r, s3)
         \<and> request w (CreatedList_create (createdList r)) s3 = (Responds p, s')
         \<and> requestedCount r = count config
         \<and> availableCount r = primaryBeforeFilter src + secondaryBeforeFilter src
         \<and> fulfillmentPercentage r = fulfillment (length sel) (count config)
         \<and> contactCount (createdList r) = contactCount r
         \<and> requestedCount (createdList r) = requestedCount r
         \<and> availableCount (createdList r) = availableCount r
         \<and> fulfillmentPercentage (createdList r) = fulfillmentPercentage r"
  using assms unfolding processSingleCampaign_def Let_def
  by (auto split: option.splits sum.splits prod.splits reply.splits)

subsection \<open>Concrete campaigns\<close>

lemma fulfillment_1_1: "fulfillment (Suc 0) 1 = 100"
  by code_simp

lemma fulfillment_1_5: "fulfillment (Suc 0) 5 = 20"
  by code_simp

lemma fulfillment_2_2: "fulfillment (Suc (Suc 0)) 2 = 100"
  by code_simp

lemma fulfillment_0_1: "fulfillment 0 1 = 0"
  by code_simp

lemmas all_defs = processSingleCampaign_def fetch_sources_def getContactsFromList_def
  after_loop_def getContactsFromLegacyList_def initial_fetch_vars_def request_def
  setTimeout_def createHubSpotList_def getLegacySegmentId_def populate_def
  addContactsToList_def updateContactProperties_def chunkArray_def chunkArray_from.simps
  progressiveChunks_def default_sizes_def chunk_while.simps put_chunk.simps slice_def
  relative_index_def
  new_Set_def Set_add_def Set_has_def truthy_def list_name_def Let_def
  scripted_def page_def created_def acknowledged_def campaign_cfg_def
  env_add_fails_def env_one_contact_def env_shared_contact_def default_settings_def
  start_state_def list_doc_def list_result_def state_add_fails_def state_one_contact_def
  state_shared_contact_def state_none_requested_def env_three_contacts_def
  state_negative_count_def

lemma run_add_fails:
  "processSingleCampaign (Suc 0) env_add_fails default_settings (campaign_cfg ''100'' None 1)
     ''today'' ''BAU'' [] start_state
   = Some (Inr (list_result 0 1 1 100), [7], [7], state_add_fails)"
  by (simp add: all_defs fulfillment_1_1)

lemma run_one_contact:
  "processSingleCampaign (Suc 0) env_one_contact default_settings (campaign_cfg ''100'' None 5)
     ''today'' ''BAU'' [] start_state
   = Some (Inr (list_result 1 5 1 20), [7], [7], state_one_contact)"
  by (simp add: all_defs fulfillment_1_5)

lemma run_none_requested:
  "processSingleCampaign (Suc 0) env_one_contact default_settings (campaign_cfg ''100'' None 0)
     ''today'' ''BAU'' [] start_state
   = Some (Inr (list_result 0 0 1 0), [], [], state_none_requested)"
  by (simp add: all_defs fulfillment_def)

lemma run_negative_count:
  "processSingleCampaign (Suc 0) env_three_contacts default_settings
     (campaign_cfg ''100'' None (- 1)) ''today'' ''BAU'' [] start_state
   = Some (Inr (list_result 2 (- 1) 3 0), [7, 8], [7, 8], state_negative_count)"
  by (simp add: all_defs fulfillment_def)

lemma run_shared_contact:
  "processSingleCampaign (Suc 0) env_shared_contact default_settings
     (campaign_cfg ''100'' (Some ''200'') 2) ''today'' ''BAU'' [] start_state
   = Some (Inr (list_result 2 2 3 100), [7, 7], [7], state_shared_contact)"
  by (simp add: all_defs fulfillment_2_2)

subsection \<open>Fulfillment and counts of a campaign\<close>

lemma request_trace: "trace (snd (request w ev s)) = trace s @ [ev]"
  by (simp add: request_def)
text \<open>
  C1, as the code has it. The percentage stored in the record handed to
  \<open>CreatedList.create\<close> and returned in the result is
  \<open>Math.round((selectedContacts.length / count) * 100)\<close>, 0 when the requested count is 0:
  it is computed from the selection, before any membership write. It is the rounded
  ratio of \<open>actualContactsAdded\<close> whenever every selected contact was added.
\<close>

theorem C1_fulfillment_is_of_selection:
  assumes "processSingleCampaign fuel w cfg config d m used s = Some (Inr r, sel, used', s')"
  shows "fulfillmentPercentage r = fulfillment (length sel) (requestedCount r)
       \<and> fulfillmentPercentage (createdList r) = fulfillmentPercentage r
       \<and> last (trace s') = CreatedList_create (createdList r)
       \<and> (requestedCount r = 0 \<longrightarrow> fulfillmentPercentage r = 0)
       \<and> (contactCount r = length sel \<longrightarrow>
            fulfillmentPercentage r = fulfillment (contactCount r) (requestedCount r))"
proof -
  from processSingleCampaign_returns[OF assms] obtain s3 p where
    rq: "request w (CreatedList_create (createdList r)) s3 = (Responds p, s')"
    and pct: "fulfillmentPercentage r = fulfillment (length sel) (count config)"
    and req: "requestedCount r = count config"
    and doc: "fulfillmentPercentage (createdList r) = fulfillmentPercentage r"
    by blast
  have "last (trace s') = CreatedList_create (createdList r)"
    using request_trace[of w "CreatedList_create (createdList r)" s3] by (simp add: rq)
  then show ?thesis
    using pct req doc by (simp add: fulfillment_def)
qed

theorem C1_fulfillment_witness:
  "fulfillmentPercentage (list_result 0 1 1 100) = fulfillment (length [7::int]) 1
   \<and> fulfillmentPercentage (list_doc 0 1 1 100) = 100
   \<and> last (trace state_add_fails) = CreatedList_create (list_doc 0 1 1 100)
   \<and> requestedCount (list_result 0 0 1 0) = 0
   \<and> fulfillmentPercentage (list_result 0 0 1 0) = 0
   \<and> contactCount (list_result 1 5 1 20) = length [7::int]
   \<and> fulfillmentPercentage (list_result 1 5 1 20)
       = fulfillment (contactCount (list_result 1 5 1 20)) (requestedCount (list_result 1 5 1 20))"
  using C1_fulfillment_is_of_selection[OF run_add_fails]
    C1_fulfillment_is_of_selection[OF run_none_requested]
    C1_fulfillment_is_of_selection[OF run_one_contact]
  by (simp add: list_result_def list_doc_def)

text \<open>
  The claim as stated fails: one contact is requested and selected, every membership-add
  attempt fails, so \<open>actualContactsAdded\<close> is 0 while the stored percentage is 100.
\<close>

theorem C1_fulfillment_counterexample:
  "processSingleCampaign (Suc 0) env_add_fails default_settings (campaign_cfg ''100'' None 1)
     ''today'' ''BAU'' [] start_state
   = Some (Inr (list_result 0 1 1 100), [7], [7], state_add_fails)
   \<and> 0 < requestedCount (list_result 0 1 1 100)
   \<and> fulfillmentPercentage (list_result 0 1 1 100) = 100
   \<and> fulfillment (contactCount (list_result 0 1 1 100))
        (requestedCount (list_result 0 1 1 100)) = 0"
  by (intro conjI run_add_fails) (simp_all add: list_result_def fulfillment_0_1)
text \<open>
  C3, as the code has it. In every result and in the record handed to
  \<open>CreatedList.create\<close>, \<open>contactCount\<close> is at most the length of the selection and at
  most \<open>availableCount\<close>, and it is at most \<open>requestedCount\<close> when the requested count is
  not negative. (A negative count makes \<open>allContacts.slice(0, count)\<close> drop contacts from
  the end, so more contacts are added than were requested. The requested count is not
  bounded by the available count: the campaign takes what it can.)
\<close>

theorem C3_added_bounded_by_requested_and_available:
  assumes "processSingleCampaign fuel w cfg config d m used s = Some (Inr r, sel, used', s')"
  shows "contactCount r \<le> length sel
       \<and> contactCount r \<le> availableCount r
       \<and> (0 \<le> requestedCount r \<longrightarrow> int (contactCount r) \<le> requestedCount r)
       \<and> contactCount (createdList r) \<le> availableCount (createdList r)
       \<and> (0 \<le> requestedCount (createdList r) \<longrightarrow>
            int (contactCount (createdList r)) \<le> requestedCount (createdList r))
       \<and> requestedCount r = count config
       \<and> last (trace s') = CreatedList_create (createdList r)"
proof -
  from processSingleCampaign_returns[OF assms] obtain src s1 and newList :: hubspot_list and s2 s3 p where
    fs: "fetch_sources fuel w cfg config used s = Some (src, s1)"
    and sel: "sel = slice (primaryContacts src @ secondaryContacts src) 0 (count config)"
    and pop: "populate w cfg config (new_listId newList) sel s2 = Some (contactCount r, s3)"
    and rq: "request w (CreatedList_create (createdList r)) s3 = (Responds p, s')"
    and req: "requestedCount r = count config"
    and av: "availableCount r = primaryBeforeFilter src + secondaryBeforeFilter src"
    and doc: "contactCount (createdList r) = contactCount r"
      "requestedCount (createdList r) = requestedCount r"
      "availableCount (createdList r) = availableCount r"
    by blast
  have added: "contactCount r \<le> length sel"
    using populate_le[OF pop] .
  have requested: "int (length sel) \<le> count config" if "0 \<le> count config"
    using that by (simp add: sel slice_first)
  have "length sel \<le> length (primaryContacts src @ secondaryContacts src)"
    unfolding sel by (rule slice_length)
  then have available: "length sel \<le> primaryBeforeFilter src + secondaryBeforeFilter src"
    using fetch_sources_facts(1-4)[OF fs] by simp
  have "last (trace s') = CreatedList_create (createdList r)"
    using request_trace[of w "CreatedList_create (createdList r)" s3] by (simp add: rq)
  then show ?thesis
    using added requested available req av doc by auto
qed

theorem C3_added_bounded_witness:
  "contactCount (list_result 1 5 1 20) \<le> length [7::int]
   \<and> contactCount (list_result 1 5 1 20) \<le> availableCount (list_result 1 5 1 20)
   \<and> 0 \<le> requestedCount (list_result 1 5 1 20)
   \<and> int (contactCount (list_result 1 5 1 20)) \<le> requestedCount (list_result 1 5 1 20)
   \<and> last (trace state_one_contact) = CreatedList_create (list_doc 1 5 1 20)
   \<and> contactCount (list_result 2 (- 1) 3 0) \<le> availableCount (list_result 2 (- 1) 3 0)
   \<and> requestedCount (list_result 2 (- 1) 3 0) = count (campaign_cfg ''100'' None (- 1))"
  using C3_added_bounded_by_requested_and_available[OF run_one_contact]
    C3_added_bounded_by_requested_and_available[OF run_negative_count]
  by (simp add: list_result_def)

text \<open>
  The chain as stated fails in both links. Second link: five contacts are requested, the
  primary list holds one and there is no secondary list, so the requested count 5 exceeds
  the available count 1. First link: with the requested count -1 and a primary list
  holding 7, 8 and 9, the selection is \<open>[7, 8]\<close>, both contacts are added, and the count
  of added contacts 2 exceeds the requested count.
\<close>

theorem C3_requested_exceeds_available_counterexample:
  "processSingleCampaign (Suc 0) env_one_contact default_settings (campaign_cfg ''100'' None 5)
     ''today'' ''BAU'' [] start_state
   = Some (Inr (list_result 1 5 1 20), [7], [7], state_one_contact)
   \<and> requestedCount (list_result 1 5 1 20) = 5
   \<and> availableCount (list_result 1 5 1 20) = 1
   \<and> \<not> requestedCount (list_result 1 5 1 20) \<le> int (availableCount (list_result 1 5 1 20))
   \<and> processSingleCampaign (Suc 0) env_three_contacts default_settings
        (campaign_cfg ''100'' None (- 1)) ''today'' ''BAU'' [] start_state
      = Some (Inr (list_result 2 (- 1) 3 0), [7, 8], [7, 8], state_negative_count)
   \<and> contactCount (list_result 2 (- 1) 3 0) = 2
   \<and> requestedCount (list_result 2 (- 1) 3 0) = - 1
   \<and> \<not> int (contactCount (list_result 2 (- 1) 3 0)) \<le> requestedCount (list_result 2 (- 1) 3 0)"
  by (intro conjI run_one_contact run_negative_count) (simp_all add: list_result_def)

subsection \<open>The selection of a campaign\<close>

lemma processSingleCampaign_selection:
  assumes "processSingleCampaign fuel w cfg config d m used s = Some (out, sel, used', s')"
  shows "\<exists>src s1. fetch_sources fuel w cfg config used s = Some (src, s1)
         \<and> sel = slice (primaryContacts src @ secondaryContacts src) 0 (count config)
         \<and> used' = foldl Set_add used sel"
  using assms unfolding processSingleCampaign_def Let_def
  by (auto split: option.splits sum.splits prod.splits reply.splits)

lemma fetch_sources_fetched:
  assumes "fetch_sources fuel w cfg config used s = Some (src, s1)"
  shows "primaryContacts src
           = filter (\<lambda>vid. \<not> Set_has used vid) (primary_fetched fuel w cfg config s)
       \<and> secondaryContacts src
           = filter (\<lambda>vid. \<not> Set_has used vid) (secondary_fetched fuel w cfg config used s)"
proof (cases "getContactsFromList fuel w cfg (primaryListId config)
               (nat (max (count config * 3) 500)) s")
  case None
  then show ?thesis
    using assms by (simp add: fetch_sources_def)
next
  case (Some a)
  obtain r s0 where a: "a = (r, s0)"
    by (cases a)
  show ?thesis
  proof (cases r)
    case (Inl e)
    then show ?thesis
      using assms Some a
      by (auto simp: fetch_sources_def primary_fetched_def secondary_fetched_def)
  next
    case (Inr cs)
    note g1 = Some[unfolded a Inr]
    show ?thesis
    proof (cases "secondaryListId config")
      case None
      then show ?thesis
        using assms g1
        by (auto simp: fetch_sources_def Let_def primary_fetched_def
            secondary_fetched_def)
    next
      case second: (Some lid2)
      show ?thesis
      proof (cases "int (length (filter (\<lambda>vid. \<not> Set_has used vid) cs)) < count config
                    \<and> lid2 \<noteq> []")
        case False
        have src: "fetch_sources fuel w cfg config used s
                   = Some (\<lparr>primaryContacts = filter (\<lambda>vid. \<not> Set_has used vid) cs,
                            secondaryContacts = [], primaryBeforeFilter = length cs,
                            primaryAfterFilter = length (filter (\<lambda>vid. \<not> Set_has used vid) cs),
                            secondaryBeforeFilter = 0, secondaryAfterFilter = 0\<rparr>, s0)"
          unfolding fetch_sources_def Let_def g1 second
          by (simp only: option.case prod.case sum.case if_not_P[OF False])
        have sec: "secondary_fetched fuel w cfg config used s = []"
          unfolding secondary_fetched_def g1 second
          by (simp only: option.case prod.case sum.case if_not_P[OF False])
        have pri: "primary_fetched fuel w cfg config s = cs"
          unfolding primary_fetched_def g1 by simp
        from assms src have "src = \<lparr>primaryContacts = filter (\<lambda>vid. \<not> Set_has used vid) cs,
                            secondaryContacts = [], primaryBeforeFilter = length cs,
                            primaryAfterFilter = length (filter (\<lambda>vid. \<not> Set_has used vid) cs),
                            secondaryBeforeFilter = 0, secondaryAfterFilter = 0\<rparr>"
          by simp
        then show ?thesis
          by (simp add: sec pri)
      next
        case True
        show ?thesis
        proof (cases "getContactsFromList fuel w cfg lid2
                         (nat (max ((count config
                                     - int (length (filter (\<lambda>vid. \<not> Set_has used vid) cs))) * 3)
                                 500)) s0")
          case None
          then show ?thesis
            using assms g1 second True
            by (simp add: fetch_sources_def Let_def)
        next
          case g2: (Some b)
          obtain r2 s2 where b: "b = (r2, s2)"
            by (cases b)
          show ?thesis
            using assms g1 second True g2 b
            by (cases r2)
               (auto simp: fetch_sources_def Let_def primary_fetched_def
                   secondary_fetched_def)
        qed
      qed
    qed
  qed
qed

text \<open>
  C10. The selection of a campaign is the first \<open>count\<close> elements, for a \<open>count\<close> that is
  not negative, of the primary contacts not in the dedup set followed by the secondary
  contacts not in the dedup set. Nothing removes a contact of the secondary list that is
  also in the primary list: when the primary list holds contact 7, the secondary list
  holds 7 and 8 and two contacts are requested, the selection is \<open>[7, 7]\<close>, the
  membership-add payload is \<open>[7, 7]\<close> and the count of added contacts is 2.
\<close>

theorem C10_selection_keeps_duplicates_across_lists:
  "(processSingleCampaign fuel w cfg config d m used s = Some (out, sel, used', s')
    \<and> 0 \<le> count config \<longrightarrow>
      sel = selection_by_claim used (nat (count config))
              (primary_fetched fuel w cfg config s)
              (secondary_fetched fuel w cfg config used s))
   \<and> processSingleCampaign (Suc 0) env_shared_contact default_settings
        (campaign_cfg ''100'' (Some ''200'') 2) ''today'' ''BAU'' [] start_state
      = Some (Inr (list_result 2 2 3 100), [7, 7], [7], state_shared_contact)
   \<and> contactCount (list_result 2 2 3 100) = 2
   \<and> Put_memberships_add ''900'' [7, 7] \<in> set (trace state_shared_contact)"
proof -
  have "sel = selection_by_claim used (nat (count config))
              (primary_fetched fuel w cfg config s)
              (secondary_fetched fuel w cfg config used s)"
    if run: "processSingleCampaign fuel w cfg config d m used s = Some (out, sel, used', s')"
      and pos: "0 \<le> count config"
  proof -
    from processSingleCampaign_selection[OF run] obtain src s1 where
      fs: "fetch_sources fuel w cfg config used s = Some (src, s1)"
      and sel: "sel = slice (primaryContacts src @ secondaryContacts src) 0 (count config)"
      by blast
    show ?thesis
      using fetch_sources_fetched[OF fs]
      by (simp add: sel slice_first[OF pos] selection_by_claim_def Set_has_def)
  qed
  note general = this
  show ?thesis
  proof (intro conjI impI)
    assume "processSingleCampaign fuel w cfg config d m used s = Some (out, sel, used', s')
            \<and> 0 \<le> count config"
    then show "sel = selection_by_claim used (nat (count config))
              (primary_fetched fuel w cfg config s)
              (secondary_fetched fuel w cfg config used s)"
      using general by blast
  next
    show "processSingleCampaign (Suc 0) env_shared_contact default_settings
        (campaign_cfg ''100'' (Some ''200'') 2) ''today'' ''BAU'' [] start_state
      = Some (Inr (list_result 2 2 3 100), [7, 7], [7], state_shared_contact)"
      by (rule run_shared_contact)
  next
    show "contactCount (list_result 2 2 3 100) = 2"
      by (simp add: list_result_def)
  next
    show "Put_memberships_add ''900'' [7, 7] \<in> set (trace state_shared_contact)"
      by (simp add: state_shared_contact_def)
  qed
qed

theorem C10_selection_witness:
  "processSingleCampaign (Suc 0) env_shared_contact default_settings
        (campaign_cfg ''100'' (Some ''200'') 2) ''today'' ''BAU'' [] start_state
      = Some (Inr (list_result 2 2 3 100), [7, 7], [7], state_shared_contact)
   \<and> primary_fetched (Suc 0) env_shared_contact default_settings
        (campaign_cfg ''100'' (Some ''200'') 2) start_state = [7]
   \<and> secondary_fetched (Suc 0) env_shared_contact default_settings
        (campaign_cfg ''100'' (Some ''200'') 2) [] start_state = [7, 8]
   \<and> 0 \<le> count (campaign_cfg ''100'' (Some ''200'') 2)
   \<and> selection_by_claim [] 2 [7] [7, 8] = [7, 7]"
proof -
  have p: "primary_fetched (Suc 0) env_shared_contact default_settings
        (campaign_cfg ''100'' (Some ''200'') 2) start_state = [7]"
    by (simp add: primary_fetched_def all_defs)
  have q: "secondary_fetched (Suc 0) env_shared_contact default_settings
        (campaign_cfg ''100'' (Some ''200'') 2) [] start_state = [7, 8]"
    by (simp add: secondary_fetched_def all_defs)
  have c: "count (campaign_cfg ''100'' (Some ''200'') 2) = 2"
    by (simp add: campaign_cfg_def)
  then have c0: "0 \<le> count (campaign_cfg ''100'' (Some ''200'') 2)"
    by simp
  note inst = C10_selection_keeps_duplicates_across_lists
            [of "Suc 0" env_shared_contact default_settings
                "campaign_cfg ''100'' (Some ''200'') 2" "''today''" "''BAU''" "[]"
                start_state "Inr (list_result 2 2 3 100)" "[7, 7]" "[7]" state_shared_contact,
             THEN conjunct1, rule_format, OF conjI[OF run_shared_contact c0]]
  have "selection_by_claim [] 2 [7] [7, 8] = [7, 7]"
    using inst by (simp add: p q c)
  then show ?thesis
    using run_shared_contact p q c0 by simp
qed

subsection \<open>The sequencer's loop\<close>

text \<open>Both branches of the loop body do the same with the outcome of the campaign.\<close>

lemma campaign_loop_Cons:
  "campaign_loop fuel w cfg d m n (config # rest) index rv s =
     (case processSingleCampaign fuel w cfg config d m (usedContacts rv) s of
        None \<Rightarrow> None
      | Some (out, sel, used, s1) \<Rightarrow>
          campaign_loop fuel w cfg d m n rest (Suc index)
            \<lparr>results = results rv @ [settle out], usedContacts = used,
             selections = selections rv @ [sel]\<rparr>
            (if int index < int n - 1
             then setTimeout (inter_delay cfg (clock s) (clock s1)) s1 else s1))"
proof (cases "processSingleCampaign fuel w cfg config d m (usedContacts rv) s")
  case None
  then show ?thesis by simp
next
  case (Some a)
  obtain out sel used s1 where a: "a = (out, sel, used, s1)"
    by (cases a)
  show ?thesis
    by (cases out) (simp_all add: Some a settle_def Let_def)
qed

lemma campaign_loop_append:
  "campaign_loop fuel w cfg d m n (xs @ ys) index rv s =
     (case campaign_loop fuel w cfg d m n xs index rv s of
        None \<Rightarrow> None
      | Some (rv1, s1) \<Rightarrow> campaign_loop fuel w cfg d m n ys (index + length xs) rv1 s1)"
proof (induction xs arbitrary: index rv s)
  case Nil
  then show ?case by simp
next
  case (Cons x xs)
  show ?case
  proof (cases "processSingleCampaign fuel w cfg x d m (usedContacts rv) s")
    case None
    then show ?thesis
      by (simp only: append_Cons campaign_loop_Cons option.case)
  next
    case (Some a)
    obtain out sel used s1 where a: "a = (out, sel, used, s1)"
      by (cases a)
    show ?thesis
      by (simp only: append_Cons campaign_loop_Cons Some a option.case prod.case Cons.IH
          length_Cons add_Suc_right add_Suc)
  qed
qed

lemma campaign_loop_lengths:
  "campaign_loop fuel w cfg d m n configs index rv s = Some (rv', s') \<Longrightarrow>
   length (results rv') = length (results rv) + length configs
   \<and> length (selections rv') = length (selections rv) + length configs"
proof (induction configs arbitrary: index rv s)
  case Nil
  then show ?case by simp
next
  case (Cons x xs)
  from Cons.prems obtain out sel used s1 where
    p: "processSingleCampaign fuel w cfg x d m (usedContacts rv) s = Some (out, sel, used, s1)"
    by (cases "processSingleCampaign fuel w cfg x d m (usedContacts rv) s")
       (auto simp only: campaign_loop_Cons option.case)
  from Cons.prems have
    "campaign_loop fuel w cfg d m n xs (Suc index)
       \<lparr>results = results rv @ [settle out], usedContacts = used,
        selections = selections rv @ [sel]\<rparr>
       (if int index < int n - 1
        then setTimeout (inter_delay cfg (clock s) (clock s1)) s1 else s1) = Some (rv', s')"
    by (simp only: campaign_loop_Cons p option.case prod.case)
  from Cons.IH[OF this] show ?case by simp
qed

text \<open>The step of the loop at any position of the run.\<close>

lemma run_campaigns_step:
  assumes pre: "campaign_loop fuel w cfg d m (length (pre @ config # post)) pre 0
                  initial_run_vars s0 = Some (rv, s)"
    and one: "processSingleCampaign fuel w cfg config d m (usedContacts rv) s
                = Some (out, sel, used, s1)"
  shows "run_campaigns fuel w cfg (pre @ config # post) d m s0 =
           campaign_loop fuel w cfg d m (length (pre @ config # post)) post (Suc (length pre))
             \<lparr>results = results rv @ [settle out], usedContacts = used,
              selections = selections rv @ [sel]\<rparr>
             (if post = [] then s1
              else setTimeout
                     (nat (max 0 (int (INTER_LIST_DELAY_MS cfg)
                                  - (int (clock s1) - int (clock s))))) s1)"
proof -
  have last: "(int (length pre) < int (length (pre @ config # post)) - 1) = (post \<noteq> [])"
    by (cases post) simp_all
  show ?thesis
    unfolding run_campaigns_def
    by (simp only: campaign_loop_append pre option.case prod.case campaign_loop_Cons one
        add_0 last inter_delay_def if_not_P if_P split: if_splits)
       (simp add: inter_delay_def)
qed

subsection \<open>The clock never runs backwards\<close>

lemma request_clock: "clock s \<le> clock (snd (request w ev s))"
  by (simp add: request_def)

lemma request_clock': "request w ev s = (r, s1) \<Longrightarrow> clock s \<le> clock s1"
  using request_clock[of s w ev] by simp

lemma setTimeout_clock: "clock (setTimeout ms s) = clock s + ms"
  by (simp add: setTimeout_def)

lemma fetch_loop_clock:
  "fetch_loop fuel w cfg lid maxCount v s = Some (r, s') \<Longrightarrow> clock s \<le> clock s'"
proof (induction fuel arbitrary: v s)
  case 0
  then show ?case by (simp split: if_splits)
next
  case (Suc fuel)
  show ?case
  proof (cases "hasMore v \<and> length (allContacts v) < maxCount")
    case False
    with Suc.prems show ?thesis by auto
  next
    case True
    obtain rp s1 where rq: "request w (Get_memberships lid
          (min (RETRIEVAL_BATCH_SIZE cfg) (maxCount - length (allContacts v)))
          (if truthy (after v) then after v else None)) s = (rp, s1)"
      by (cases "request w (Get_memberships lid
          (min (RETRIEVAL_BATCH_SIZE cfg) (maxCount - length (allContacts v)))
          (if truthy (after v) then after v else None)) s")
    have c1: "clock s \<le> clock s1"
      using request_clock'[OF rq] .
    show ?thesis
    proof (cases rp)
      case (Responds p)
      from Suc.prems True rq Responds
      consider "s' = s1"
        | v3 s2 where "fetch_loop fuel w cfg lid maxCount v3 s2 = Some (r, s')"
            and "s2 = setTimeout 200 s1 \<or> s2 = s1"
        by (auto simp: Let_def split: if_splits)
      then show ?thesis
      proof cases
        case 1
        then show ?thesis using c1 by simp
      next
        case 2
        from Suc.IH[OF 2(1)] 2(2) c1 show ?thesis
          by (auto simp: setTimeout_clock)
      qed
    next
      case (Fails status msg)
      from Suc.prems True rq Fails
      consider "s' = s1"
        | v2 ms where "fetch_loop fuel w cfg lid maxCount v2 (setTimeout ms s1) = Some (r, s')"
        by (auto simp: Let_def split: if_splits)
      then show ?thesis
      proof cases
        case 1
        then show ?thesis using c1 by simp
      next
        case 2
        from Suc.IH[OF 2] c1 show ?thesis
          by (simp add: setTimeout_clock)
      qed
    qed
  qed
qed

lemma getContactsFromList_clock:
  "getContactsFromList fuel w cfg lid maxCount s = Some (r, s') \<Longrightarrow> clock s \<le> clock s'"
  by (auto simp: getContactsFromList_def split: option.splits sum.splits prod.splits
      dest: fetch_loop_clock)

lemma put_chunk_clock: "clock s \<le> clock (snd (put_chunk w cfg lid chunk retries s))"
proof (induction w cfg lid chunk retries s rule: put_chunk.induct)
  case (1 w cfg lid chunk retries s)
  obtain rp s1 where rq: "request w (Put_memberships_add lid chunk) s = (rp, s1)"
    by (cases "request w (Put_memberships_add lid chunk) s")
  have c1: "clock s \<le> clock s1"
    using request_clock'[OF rq] .
  show ?case
  proof (cases "retries < MAX_RETRIES cfg")
    case False
    then show ?thesis by (subst put_chunk.simps) simp
  next
    case True
    show ?thesis
    proof (cases rp)
      case (Responds p)
      then show ?thesis
        using True rq c1 by (subst put_chunk.simps) (simp add: setTimeout_clock)
    next
      case (Fails status msg)
      show ?thesis
      proof (cases "retries + 1 < MAX_RETRIES cfg")
        case False
        then show ?thesis
          using True rq Fails c1 by (subst put_chunk.simps) simp
      next
        case again: True
        have "clock (setTimeout (min (1000 * 2 ^ (retries + 1 - 1)) 5000) s1)
              \<le> clock (snd (put_chunk w cfg lid chunk (retries + 1)
                     (setTimeout (min (1000 * 2 ^ (retries + 1 - 1)) 5000) s1)))"
          using "1.IH"[OF True rq[symmetric] _ again] Fails by simp
        then show ?thesis
          using True rq Fails again c1
          by (subst put_chunk.simps) (simp add: setTimeout_clock)
      qed
    qed
  qed
qed

lemma put_chunks_clock: "clock s \<le> clock (snd (put_chunks w cfg lid chunks n s))"
proof (induction chunks arbitrary: n s)
  case Nil
  then show ?case by simp
next
  case (Cons chunk chunks)
  obtain ok s1 where p: "put_chunk w cfg lid chunk 0 s = (ok, s1)"
    by (cases "put_chunk w cfg lid chunk 0 s")
  have "clock s \<le> clock s1"
    using put_chunk_clock[of s w cfg lid chunk 0] by (simp add: p)
  moreover have "clock s1 \<le> clock (snd (put_chunks w cfg lid chunks
                    (if ok then n + length chunk else n) s1))"
    by (rule Cons.IH)
  ultimately show ?case by (simp add: p)
qed

lemma verifyListIsManual_clock: "clock s \<le> clock (snd (verifyListIsManual w lid s))"
  using request_clock[of s w "Get_list lid"]
  by (auto simp: verifyListIsManual_def split: prod.splits reply.splits)

lemma addContactsToList_clock:
  "clock s \<le> clock (snd (addContactsToList w cfg lid contacts skip s))"
proof (cases contacts)
  case None
  then show ?thesis by (simp add: addContactsToList_def)
next
  case (Some cs)
  obtain b s1 where v: "(if \<not> skip then verifyListIsManual w lid s else (True, s)) = (b, s1)"
    by (cases "if \<not> skip then verifyListIsManual w lid s else (True, s)")
  have "clock s \<le> clock s1"
    using v verifyListIsManual_clock[of s w lid] by (auto split: if_splits)
  moreover have "clock s1 \<le> clock (snd (put_chunks w cfg lid
                     (progressiveChunks cs default_sizes) 0 s1))"
    by (rule put_chunks_clock)
  ultimately show ?thesis
    using Some v by (simp add: addContactsToList_def)
qed

lemma update_chunks_clock: "clock s \<le> clock (update_chunks w dv bv chunks s)"
proof (induction chunks arbitrary: s)
  case Nil
  then show ?case by simp
next
  case (Cons chunk chunks)
  obtain rp s1 where rq: "request w (Post_contacts_batch_update chunk dv bv) s = (rp, s1)"
    by (cases "request w (Post_contacts_batch_update chunk dv bv) s")
  have "clock s \<le> clock (setTimeout 300 s1)"
    using request_clock'[OF rq] by (simp add: setTimeout_clock)
  moreover have "clock (setTimeout 300 s1) \<le> clock (update_chunks w dv bv chunks (setTimeout 300 s1))"
    by (rule Cons.IH)
  ultimately show ?case by (simp add: rq)
qed

lemma createHubSpotList_clock:
  "createHubSpotList w nm s = (r, s') \<Longrightarrow> clock s \<le> clock s'"
proof -
  assume a: "createHubSpotList w nm s = (r, s')"
  obtain rp s1 where rq: "request w (Post_lists nm) s = (rp, s1)"
    by (cases "request w (Post_lists nm) s")
  have c1: "clock s \<le> clock s1"
    using request_clock'[OF rq] .
  from a rq consider "s' = s1"
    | l rp2 where "request w (Post_lists_search l) s1 = (rp2, s')"
    by (auto simp: createHubSpotList_def getLegacySegmentId_def
        split: reply.splits option.splits if_splits prod.splits)
  then show ?thesis
  proof cases
    case 1
    then show ?thesis using c1 by simp
  next
    case 2
    from request_clock'[OF 2] c1 show ?thesis by simp
  qed
qed

lemma populate_clock:
  "populate w cfg config lid sel s = Some (n, s') \<Longrightarrow> clock s \<le> clock s'"
proof -
  assume a: "populate w cfg config lid sel s = Some (n, s')"
  show ?thesis
  proof (cases "sel = []")
    case True
    with a show ?thesis by (simp add: populate_def)
  next
    case False
    define s1 where "s1 = (case sendContactListId config of
                     None \<Rightarrow> s
                   | Some sendId \<Rightarrow>
                       if sendId \<noteq> []
                       then snd (addContactsToList w cfg sendId (Some sel) True s)
                       else s)"
    have c1: "clock s \<le> clock s1"
      unfolding s1_def using addContactsToList_clock[of s w cfg _ "Some sel" True]
      by (auto split: option.splits)
    obtain k s2 where ad: "addContactsToList w cfg lid (Some sel) True s1 = (k, s2)"
      by (cases "addContactsToList w cfg lid (Some sel) True s1")
    have c2: "clock s1 \<le> clock s2"
      using addContactsToList_clock[of s1 w cfg lid "Some sel" True] by (simp add: ad)
    from a False ad obtain chunks where
      "s' = update_chunks w (date config) (lastMarketingEmailSentBrand config) chunks s2"
      unfolding populate_def s1_def[symmetric]
      by (auto simp: Let_def updateContactProperties_def split: option.splits)
    then have "clock s2 \<le> clock s'"
      using update_chunks_clock[of s2 w "date config" "lastMarketingEmailSentBrand config" chunks]
      by simp
    with c1 c2 show ?thesis by simp
  qed
qed

lemma fetch_sources_clock:
  "fetch_sources fuel w cfg config used s = Some (src, s') \<Longrightarrow> clock s \<le> clock s'"
proof -
  assume a: "fetch_sources fuel w cfg config used s = Some (src, s')"
  from a obtain r1 s1 where
    g1: "getContactsFromList fuel w cfg (primaryListId config)
           (nat (max (count config * 3) 500)) s = Some (r1, s1)"
    by (cases "getContactsFromList fuel w cfg (primaryListId config)
                 (nat (max (count config * 3) 500)) s")
       (auto simp: fetch_sources_def)
  have c1: "clock s \<le> clock s1"
    using getContactsFromList_clock[OF g1] .
  from a g1 consider "s' = s1"
    | lid2 k r2 where "getContactsFromList fuel w cfg lid2 k s1 = Some (r2, s')"
    by (cases r1)
       (auto simp: fetch_sources_def Let_def split: option.splits sum.splits if_splits)
  then show ?thesis
  proof cases
    case 1
    then show ?thesis using c1 by simp
  next
    case 2
    from getContactsFromList_clock[OF 2] c1 show ?thesis by simp
  qed
qed

lemma processSingleCampaign_clock:
  assumes "processSingleCampaign fuel w cfg config d m used s = Some (out, sel, used', s')"
  shows "clock s \<le> clock s'"
proof -
  from assms obtain src s1 where
    fs: "fetch_sources fuel w cfg config used s = Some (src, s1)"
    by (cases "fetch_sources fuel w cfg config used s")
       (auto simp: processSingleCampaign_def)
  let ?sel = "slice (primaryContacts src @ secondaryContacts src) 0 (count config)"
  obtain rl s2 where cl: "createHubSpotList w (list_name config) s1 = (rl, s2)"
    by (cases "createHubSpotList w (list_name config) s1")
  have c1: "clock s \<le> clock s1"
    using fetch_sources_clock[OF fs] .
  have c2: "clock s1 \<le> clock s2"
    using createHubSpotList_clock[OF cl] .
  from assms fs cl consider "s' = s2"
    | lid k s3 ev rp where "populate w cfg config lid ?sel s2 = Some (k, s3)"
        and "request w ev s3 = (rp, s')"
    unfolding processSingleCampaign_def Let_def
    by (cases rl) (auto split: option.splits prod.splits reply.splits)
  then show ?thesis
  proof cases
    case 1
    then show ?thesis using c1 c2 by simp
  next
    case 2
    have "clock s2 \<le> clock s3"
      using populate_clock[OF 2(1)] .
    moreover have "clock s3 \<le> clock s'"
      using request_clock'[OF 2(2)] .
    ultimately show ?thesis using c1 c2 by simp
  qed
qed

subsection \<open>The dedup set across a run\<close>

lemma foldl_Set_add_set: "set (foldl Set_add u xs) = set u \<union> set xs"
  by (induction xs arbitrary: u) (auto simp: Set_add_def)

lemma foldl_Set_add_length: "length (foldl Set_add u xs) \<le> length u + length xs"
proof (induction xs arbitrary: u)
  case Nil
  then show ?case by simp
next
  case (Cons x xs)
  have "length (Set_add u x) \<le> length u + 1"
    by (simp add: Set_add_def)
  with Cons.IH[of "Set_add u x"] show ?case by simp
qed

lemma processSingleCampaign_fresh:
  assumes "processSingleCampaign fuel w cfg config d m used s = Some (out, sel, used', s')"
  shows "set sel \<inter> set used = {}"
    and "set used' = set used \<union> set sel"
    and "length used' \<le> length used + length sel"
proof -
  from processSingleCampaign_selection[OF assms] obtain src s1 where
    fs: "fetch_sources fuel w cfg config used s = Some (src, s1)"
    and sel: "sel = slice (primaryContacts src @ secondaryContacts src) 0 (count config)"
    and used': "used' = foldl Set_add used sel"
    by blast
  have "set sel \<subseteq> set (primaryContacts src) \<union> set (secondaryContacts src)"
    using slice_subset[of "primaryContacts src @ secondaryContacts src" 0 "count config"]
    by (simp add: sel)
  then show "set sel \<inter> set used = {}"
    using fetch_sources_facts(5,6)[OF fs] by blast
  show "set used' = set used \<union> set sel"
    by (simp add: used' foldl_Set_add_set)
  show "length used' \<le> length used + length sel"
    by (simp add: used' foldl_Set_add_length)
qed

lemma run_invariant_step:
  assumes inv: "run_invariant rv"
    and fresh: "set sel \<inter> set (usedContacts rv) = {}"
    and union: "set used' = set (usedContacts rv) \<union> set sel"
    and len: "length used' \<le> length (usedContacts rv) + length sel"
  shows "run_invariant \<lparr>results = rs, usedContacts = used', selections = selections rv @ [sel]\<rparr>"
proof -
  from inv have sub: "\<forall>x \<in> set (selections rv). set x \<subseteq> set (usedContacts rv)"
    and dis: "\<forall>i j. i < j \<and> j < length (selections rv) \<longrightarrow>
                set (selections rv ! i) \<inter> set (selections rv ! j) = {}"
    and sz: "length (usedContacts rv) \<le> sum_list (map length (selections rv))"
    by (simp_all add: run_invariant_def)
  have a: "\<forall>x \<in> set (selections rv @ [sel]). set x \<subseteq> set used'"
    using sub union by auto
  have b: "set ((selections rv @ [sel]) ! i) \<inter> set ((selections rv @ [sel]) ! j) = {}"
    if "i < j" and "j < length (selections rv @ [sel])" for i j
  proof (cases "j < length (selections rv)")
    case True
    with that dis show ?thesis by (simp add: nth_append)
  next
    case False
    with that have j: "j = length (selections rv)" and i: "i < length (selections rv)"
      by simp_all
    from i sub have "set (selections rv ! i) \<subseteq> set (usedContacts rv)"
      by simp
    with fresh show ?thesis
      using i j by (auto simp: nth_append)
  qed
  have c: "length used' \<le> sum_list (map length (selections rv @ [sel]))"
    using sz len by simp
  show ?thesis
    unfolding run_invariant_def using a b c by simp
qed

lemma campaign_loop_invariant:
  "campaign_loop fuel w cfg d m n configs index rv s = Some (rv', s') \<Longrightarrow>
   run_invariant rv \<Longrightarrow> run_invariant rv'"
proof (induction configs arbitrary: index rv s)
  case Nil
  then show ?case by simp
next
  case (Cons x xs)
  from Cons.prems(1) obtain out sel used s1 where
    p: "processSingleCampaign fuel w cfg x d m (usedContacts rv) s = Some (out, sel, used, s1)"
    by (cases "processSingleCampaign fuel w cfg x d m (usedContacts rv) s")
       (auto simp only: campaign_loop_Cons option.case)
  from Cons.prems(1) have rest:
    "campaign_loop fuel w cfg d m n xs (Suc index)
       \<lparr>results = results rv @ [settle out], usedContacts = used,
        selections = selections rv @ [sel]\<rparr>
       (if int index < int n - 1
        then setTimeout (inter_delay cfg (clock s) (clock s1)) s1 else s1) = Some (rv', s')"
    by (simp only: campaign_loop_Cons p option.case prod.case)
  have "run_invariant \<lparr>results = results rv @ [settle out], usedContacts = used,
        selections = selections rv @ [sel]\<rparr>"
    using run_invariant_step[OF Cons.prems(2) processSingleCampaign_fresh[OF p]] .
  from Cons.IH[OF rest this] show ?case .
qed

subsection \<open>The time a run takes\<close>

lemma campaign_loop_clock:
  "campaign_loop fuel w cfg d m n configs index rv s = Some (rv', s') \<Longrightarrow>
   index + length configs = n \<Longrightarrow>
   clock s + (length configs - 1) * INTER_LIST_DELAY_MS cfg \<le> clock s'"
proof (induction configs arbitrary: index rv s)
  case Nil
  then show ?case by simp
next
  case (Cons x xs)
  from Cons.prems(1) obtain out sel used s1 where
    p: "processSingleCampaign fuel w cfg x d m (usedContacts rv) s = Some (out, sel, used, s1)"
    by (cases "processSingleCampaign fuel w cfg x d m (usedContacts rv) s")
       (auto simp only: campaign_loop_Cons option.case)
  let ?rv1 = "\<lparr>results = results rv @ [settle out], usedContacts = used,
        selections = selections rv @ [sel]\<rparr>"
  let ?s2 = "if int index < int n - 1
        then setTimeout (inter_delay cfg (clock s) (clock s1)) s1 else s1"
  from Cons.prems(1) have rest:
    "campaign_loop fuel w cfg d m n xs (Suc index) ?rv1 ?s2 = Some (rv', s')"
    by (simp only: campaign_loop_Cons p option.case prod.case)
  have c1: "clock s \<le> clock s1"
    using processSingleCampaign_clock[OF p] .
  show ?case
  proof (cases xs)
    case Nil
    with rest have "s' = ?s2" by simp
    moreover from Nil Cons.prems(2) have "\<not> int index < int n - 1" by auto
    ultimately show ?thesis using c1 Nil by simp
  next
    case (Cons y ys)
    with Cons.prems(2) have "int index < int n - 1" by auto
    then have s2: "?s2 = setTimeout (inter_delay cfg (clock s) (clock s1)) s1"
      by simp
    have gap: "clock s + INTER_LIST_DELAY_MS cfg \<le> clock ?s2"
      unfolding s2 using c1 by (simp add: setTimeout_clock inter_delay_def)
    have "Suc index + length xs = n"
      using Cons.prems(2) by simp
    from Cons.IH[OF rest this]
    have "clock ?s2 + (length xs - 1) * INTER_LIST_DELAY_MS cfg \<le> clock s'" .
    with gap have "clock s + INTER_LIST_DELAY_MS cfg + length ys * INTER_LIST_DELAY_MS cfg
                   \<le> clock s'"
      using Cons by simp
    then show ?thesis
      using Cons by simp
  qed
qed

subsection \<open>Concrete runs\<close>

lemma fulfillment_0: "fulfillment 0 n = 0"
proof -
  have "\<lfloor>(1::rat) / 2\<rfloor> = 0"
    by (rule floor_unique) simp_all
  then show ?thesis
    by (simp add: fulfillment_def to_double_def Math_round_def)
qed

lemmas run_defs = run_campaigns_def initial_run_vars_def inter_delay_def
  env_two_campaigns_def env_three_quick_def env_no_list_id_def one_second_apart_def
  settle_def

lemma run_two_campaigns:
  "map_option (\<lambda>(rv, s). (selections rv, usedContacts rv))
     (run_campaigns (Suc 0) env_two_campaigns one_second_apart
        [campaign_cfg ''100'' None 2, campaign_cfg ''101'' None 2] ''today'' ''BAU'' start_state)
   = Some ([[1, 2], [3, 4]], [1, 2, 3, 4])"
  by (simp add: run_defs all_defs fulfillment_2_2)

lemma run_three_quick:
  "map_option (\<lambda>(rv, s). (map is_rejected (results rv), clock s, timers s))
     (run_campaigns (Suc 0) env_three_quick one_second_apart
        [campaign_cfg ''100'' None 2, campaign_cfg ''101'' None 2, campaign_cfg ''102'' None 2]
        ''today'' ''BAU'' start_state)
   = Some ([False, False, False], 2040, [960, 960])"
  by (simp add: run_defs all_defs fulfillment_0 is_rejected_def timers_def)

lemma run_no_list_id:
  "map_option (\<lambda>(rv, s). (results rv, clock s, timers s))
     (run_campaigns (Suc 0) env_no_list_id one_second_apart
        [campaign_cfg ''100'' None 2, campaign_cfg ''101'' None 2] ''today'' ''BAU'' start_state)
   = Some ([Rejected ListId_not_returned, Rejected ListId_not_returned], 1020, [980])"
  by (simp add: run_defs all_defs timers_def)

lemma first_of_three_state:
  "map_option (\<lambda>(rv, s). (usedContacts rv, s))
     (campaign_loop (Suc 0) env_three_quick one_second_apart ''today'' ''BAU''
        (length ([campaign_cfg ''100'' None 2] @ campaign_cfg ''101'' None 2
                 # [campaign_cfg ''102'' None 2]))
        [campaign_cfg ''100'' None 2] 0 initial_run_vars start_state)
   = Some ([], state_after_first)"
  by (simp add: run_defs all_defs fulfillment_0 state_after_first_def)

lemma second_of_three_quick:
  "map_option (\<lambda>(out, sel, used, s1). (sel, used, clock s1))
     (processSingleCampaign (Suc 0) env_three_quick one_second_apart
        (campaign_cfg ''101'' None 2) ''today'' ''BAU'' [] state_after_first)
   = Some ([], [], 1040)"
  by (simp add: run_defs all_defs fulfillment_0 state_after_first_def)

lemma first_without_list_id:
  "processSingleCampaign (Suc 0) env_no_list_id one_second_apart
     (campaign_cfg ''100'' None 2) ''today'' ''BAU'' [] start_state
   = Some (Inl ListId_not_returned, [], [], state_first_failed)"
  by (simp add: run_defs all_defs state_first_failed_def)

lemma always_returns_without_list_id:
  "processSingleCampaign (Suc 0) env_no_list_id one_second_apart
     (campaign_cfg lid None n) ''today'' ''BAU'' used s \<noteq> None"
  by (simp add: run_defs all_defs)

subsection \<open>The run sequencer\<close>

lemma campaign_loop_returns:
  "\<forall>config \<in> set configs. \<forall>used s.
     processSingleCampaign fuel w cfg config d m used s \<noteq> None \<Longrightarrow>
   campaign_loop fuel w cfg d m n configs index rv s \<noteq> None"
proof (induction configs arbitrary: index rv s)
  case Nil
  then show ?case by simp
next
  case (Cons x xs)
  from Cons.prems obtain a where
    p: "processSingleCampaign fuel w cfg x d m (usedContacts rv) s = Some a"
    by fastforce
  obtain out sel used s1 where a: "a = (out, sel, used, s1)"
    by (cases a)
  from Cons.prems have "\<forall>config \<in> set xs. \<forall>used s.
     processSingleCampaign fuel w cfg config d m used s \<noteq> None"
    by simp
  from Cons.IH[OF this] show ?case
    by (simp only: campaign_loop_Cons p a option.case prod.case) simp
qed

text \<open>
  C4. In a run, the selections of two different campaigns share no contact id, and the
  dedup set is no larger than the selected-contact counts together. (The selection of a
  campaign that throws afterwards counts as well: it is in the dedup set.)
\<close>

theorem C4_selections_disjoint_and_dedup_set_bounded:
  assumes "run_campaigns fuel w cfg configs d m s0 = Some (rv, s')"
  shows "length (selections rv) = length configs
       \<and> (\<forall>i j. i < j \<and> j < length configs \<longrightarrow>
             set (selections rv ! i) \<inter> set (selections rv ! j) = {})
       \<and> length (usedContacts rv) \<le> sum_list (map length (selections rv))"
proof -
  have start: "run_invariant initial_run_vars"
    by (simp add: run_invariant_def initial_run_vars_def)
  from assms have loop:
    "campaign_loop fuel w cfg d m (length configs) configs 0 initial_run_vars s0 = Some (rv, s')"
    by (simp add: run_campaigns_def)
  have len: "length (selections rv) = length configs"
    using campaign_loop_lengths[OF loop] by (simp add: initial_run_vars_def)
  have "run_invariant rv"
    using campaign_loop_invariant[OF loop start] .
  then show ?thesis
    using len by (simp add: run_invariant_def)
qed

theorem C4_selections_disjoint_witness:
  "\<exists>rv s'. run_campaigns (Suc 0) env_two_campaigns one_second_apart
        [campaign_cfg ''100'' None 2, campaign_cfg ''101'' None 2] ''today'' ''BAU'' start_state
      = Some (rv, s')
    \<and> selections rv = [[1, 2], [3, 4]] \<and> usedContacts rv = [1, 2, 3, 4]
    \<and> set (selections rv ! 0) \<inter> set (selections rv ! 1) = {}
    \<and> length (usedContacts rv) \<le> sum_list (map length (selections rv))"
proof -
  from run_two_campaigns obtain rv s' where
    run: "run_campaigns (Suc 0) env_two_campaigns one_second_apart
        [campaign_cfg ''100'' None 2, campaign_cfg ''101'' None 2] ''today'' ''BAU'' start_state
      = Some (rv, s')"
    and sels: "selections rv = [[1, 2], [3, 4]]" and used: "usedContacts rv = [1, 2, 3, 4]"
    by auto
  note facts = C4_selections_disjoint_and_dedup_set_bounded[OF run]
  from facts have "0 < (1::nat) \<and> 1 < length [campaign_cfg ''100'' None 2, campaign_cfg ''101'' None 2]
      \<longrightarrow> set (selections rv ! 0) \<inter> set (selections rv ! 1) = {}"
    by blast
  then have "set (selections rv ! 0) \<inter> set (selections rv ! 1) = {}"
    by simp
  with facts run sels used show ?thesis
    by blast
qed

text \<open>
  C8. When the campaign at any position of a run throws, the sequencer appends a rejected
  result with the error and goes on with the remaining campaigns, after the
  inter-campaign delay unless the campaign was the last. A run that returns has one result
  per campaign, and it returns whenever every campaign returns or throws; what
  \<open>processCampaignsWithDelay\<close> returns is the list of results.
\<close>

theorem C8_failed_campaign_is_recorded_and_run_continues:
  "(campaign_loop fuel w cfg d m (length (pre @ config # post)) pre 0 initial_run_vars s0
      = Some (rv, s)
    \<and> processSingleCampaign fuel w cfg config d m (usedContacts rv) s
      = Some (Inl err, sel, used, s1)
    \<longrightarrow> run_campaigns fuel w cfg (pre @ config # post) d m s0 =
          campaign_loop fuel w cfg d m (length (pre @ config # post)) post (Suc (length pre))
            \<lparr>results = results rv @ [Rejected err], usedContacts = used,
             selections = selections rv @ [sel]\<rparr>
            (if post = [] then s1
             else setTimeout
                    (nat (max 0 (int (INTER_LIST_DELAY_MS cfg)
                                 - (int (clock s1) - int (clock s))))) s1))
   \<and> (run_campaigns fuel w cfg configs d m s0 = Some (rv', s')
        \<longrightarrow> length (results rv') = length configs)
   \<and> ((\<forall>c \<in> set configs. \<forall>u t. processSingleCampaign fuel w cfg c d m u t \<noteq> None)
        \<longrightarrow> run_campaigns fuel w cfg configs d m s0 \<noteq> None)
   \<and> processCampaignsWithDelay fuel w cfg configs d m s0
        = map_option (\<lambda>(rv, s). (results rv, s)) (run_campaigns fuel w cfg configs d m s0)"
proof (intro conjI impI)
  assume "campaign_loop fuel w cfg d m (length (pre @ config # post)) pre 0 initial_run_vars s0
      = Some (rv, s)
    \<and> processSingleCampaign fuel w cfg config d m (usedContacts rv) s
      = Some (Inl err, sel, used, s1)"
  then show "run_campaigns fuel w cfg (pre @ config # post) d m s0 =
          campaign_loop fuel w cfg d m (length (pre @ config # post)) post (Suc (length pre))
            \<lparr>results = results rv @ [Rejected err], usedContacts = used,
             selections = selections rv @ [sel]\<rparr>
            (if post = [] then s1
             else setTimeout
                    (nat (max 0 (int (INTER_LIST_DELAY_MS cfg)
                                 - (int (clock s1) - int (clock s))))) s1)"
    using run_campaigns_step[of fuel w cfg d m pre config post s0 rv s "Inl err" sel used s1]
    by (simp add: settle_def)
next
  assume "run_campaigns fuel w cfg configs d m s0 = Some (rv', s')"
  then show "length (results rv') = length configs"
    using campaign_loop_lengths[of fuel w cfg d m "length configs" configs 0
            initial_run_vars s0 rv' s']
    by (simp add: run_campaigns_def initial_run_vars_def)
next
  assume "\<forall>c \<in> set configs. \<forall>u t. processSingleCampaign fuel w cfg c d m u t \<noteq> None"
  then show "run_campaigns fuel w cfg configs d m s0 \<noteq> None"
    unfolding run_campaigns_def by (rule campaign_loop_returns)
next
  show "processCampaignsWithDelay fuel w cfg configs d m s0
        = map_option (\<lambda>(rv, s). (results rv, s)) (run_campaigns fuel w cfg configs d m s0)"
    by (simp add: processCampaignsWithDelay_def split: option.splits)
qed

theorem C8_failed_campaign_witness:
  "processSingleCampaign (Suc 0) env_no_list_id one_second_apart
     (campaign_cfg ''100'' None 2) ''today'' ''BAU'' [] start_state
     = Some (Inl ListId_not_returned, [], [], state_first_failed)
   \<and> run_campaigns (Suc 0) env_no_list_id one_second_apart
        [campaign_cfg ''100'' None 2, campaign_cfg ''101'' None 2] ''today'' ''BAU'' start_state
      = campaign_loop (Suc 0) env_no_list_id one_second_apart ''today'' ''BAU''
          (length [campaign_cfg ''100'' None 2, campaign_cfg ''101'' None 2])
          [campaign_cfg ''101'' None 2] (Suc 0)
          \<lparr>results = [Rejected ListId_not_returned], usedContacts = [], selections = [[]]\<rparr>
          (setTimeout 980 state_first_failed)
   \<and> (\<exists>rv' s'. run_campaigns (Suc 0) env_no_list_id one_second_apart
          [campaign_cfg ''100'' None 2, campaign_cfg ''101'' None 2] ''today'' ''BAU''
          start_state = Some (rv', s')
        \<and> results rv' = [Rejected ListId_not_returned, Rejected ListId_not_returned]
        \<and> length (results rv') = 2)
   \<and> run_campaigns (Suc 0) env_no_list_id one_second_apart
        [campaign_cfg ''100'' None 2, campaign_cfg ''101'' None 2] ''today'' ''BAU'' start_state
      \<noteq> None"
proof -
  let ?c1 = "campaign_cfg ''100'' None 2" and ?c2 = "campaign_cfg ''101'' None 2"
  note inst = C8_failed_campaign_is_recorded_and_run_continues
      [of "Suc 0" env_no_list_id one_second_apart "''today''" "''BAU''" "[]"
          "?c1" "[?c2]" start_state
          initial_run_vars start_state ListId_not_returned "[]" "[]" state_first_failed
          "[?c1, ?c2]"]
  have pre: "campaign_loop (Suc 0) env_no_list_id one_second_apart ''today'' ''BAU''
               (length ([] @ ?c1 # [?c2])) [] 0 initial_run_vars start_state
             = Some (initial_run_vars, start_state)"
    by simp
  have one: "processSingleCampaign (Suc 0) env_no_list_id one_second_apart ?c1 ''today'' ''BAU''
               (usedContacts initial_run_vars) start_state
             = Some (Inl ListId_not_returned, [], [], state_first_failed)"
    using first_without_list_id by (simp add: initial_run_vars_def)
  have delay: "nat (max 0 (int (INTER_LIST_DELAY_MS one_second_apart)
                 - (int (clock state_first_failed) - int (clock start_state)))) = 980"
    by (simp add: one_second_apart_def state_first_failed_def start_state_def)
  have step: "run_campaigns (Suc 0) env_no_list_id one_second_apart [?c1, ?c2] ''today'' ''BAU''
        start_state
      = campaign_loop (Suc 0) env_no_list_id one_second_apart ''today'' ''BAU''
          (length [?c1, ?c2]) [?c2] (Suc 0)
          \<lparr>results = [Rejected ListId_not_returned], usedContacts = [], selections = [[]]\<rparr>
          (setTimeout 980 state_first_failed)"
    using inst[THEN conjunct1, rule_format, OF conjI[OF pre one]]
    by (simp add: delay initial_run_vars_def del: campaign_loop.simps)
  from run_no_list_id obtain rv' s' where
    run: "run_campaigns (Suc 0) env_no_list_id one_second_apart [?c1, ?c2] ''today'' ''BAU''
            start_state = Some (rv', s')"
    and res: "results rv' = [Rejected ListId_not_returned, Rejected ListId_not_returned]"
    by auto
  have len: "length (results rv') = 2"
    using inst[THEN conjunct2, THEN conjunct1, of rv' s'] run by simp
  have "\<forall>c \<in> set [?c1, ?c2]. \<forall>u t.
          processSingleCampaign (Suc 0) env_no_list_id one_second_apart c ''today'' ''BAU'' u t
          \<noteq> None"
    using always_returns_without_list_id by simp
  then have total: "run_campaigns (Suc 0) env_no_list_id one_second_apart [?c1, ?c2]
                      ''today'' ''BAU'' start_state \<noteq> None"
    using inst[THEN conjunct2, THEN conjunct2, THEN conjunct1] by blast
  from step run res len total first_without_list_id show ?thesis
    by blast
qed

text \<open>
  C9. After the campaign at any position of a run, whatever its outcome, the sequencer
  waits \<open>max(0, INTER_LIST_DELAY_MS - elapsed)\<close> ms, \<open>elapsed\<close> being the clock's advance
  over that campaign, unless the campaign is the last, after which it does not wait.
  So a run of \<open>n\<close> campaigns takes at least \<open>(n - 1) * INTER_LIST_DELAY_MS\<close> ms: with
  three campaigns and 1000 ms, at least 2000 ms.
\<close>

theorem C9_delay_between_campaigns:
  "(campaign_loop fuel w cfg d m (length (pre @ config # post)) pre 0 initial_run_vars s0
      = Some (rv, s)
    \<and> processSingleCampaign fuel w cfg config d m (usedContacts rv) s
      = Some (out, sel, used, s1)
    \<longrightarrow> run_campaigns fuel w cfg (pre @ config # post) d m s0 =
          campaign_loop fuel w cfg d m (length (pre @ config # post)) post (Suc (length pre))
            \<lparr>results = results rv @ [settle out], usedContacts = used,
             selections = selections rv @ [sel]\<rparr>
            (if post = [] then s1
             else setTimeout
                    (nat (max 0 (int (INTER_LIST_DELAY_MS cfg)
                                 - (int (clock s1) - int (clock s))))) s1))
   \<and> (run_campaigns fuel w cfg configs d m s0 = Some (rv', s')
        \<longrightarrow> clock s0 + (length configs - 1) * INTER_LIST_DELAY_MS cfg \<le> clock s')"
proof (intro conjI impI)
  assume "campaign_loop fuel w cfg d m (length (pre @ config # post)) pre 0 initial_run_vars s0
      = Some (rv, s)
    \<and> processSingleCampaign fuel w cfg config d m (usedContacts rv) s
      = Some (out, sel, used, s1)"
  then show "run_campaigns fuel w cfg (pre @ config # post) d m s0 =
          campaign_loop fuel w cfg d m (length (pre @ config # post)) post (Suc (length pre))
            \<lparr>results = results rv @ [settle out], usedContacts = used,
             selections = selections rv @ [sel]\<rparr>
            (if post = [] then s1
             else setTimeout
                    (nat (max 0 (int (INTER_LIST_DELAY_MS cfg)
                                 - (int (clock s1) - int (clock s))))) s1)"
    using run_campaigns_step[of fuel w cfg d m pre config post s0 rv s out sel used s1]
    by simp
next
  assume "run_campaigns fuel w cfg configs d m s0 = Some (rv', s')"
  then show "clock s0 + (length configs - 1) * INTER_LIST_DELAY_MS cfg \<le> clock s'"
    using campaign_loop_clock[of fuel w cfg d m "length configs" configs 0
            initial_run_vars s0 rv' s']
    by (simp add: run_campaigns_def)
qed

theorem C9_delay_between_campaigns_witness:
  "\<exists>rv out sel used s1 rv' s'.
     campaign_loop (Suc 0) env_three_quick one_second_apart ''today'' ''BAU''
        (length ([campaign_cfg ''100'' None 2] @ campaign_cfg ''101'' None 2
                 # [campaign_cfg ''102'' None 2]))
        [campaign_cfg ''100'' None 2] 0 initial_run_vars start_state
       = Some (rv, state_after_first)
     \<and> processSingleCampaign (Suc 0) env_three_quick one_second_apart
          (campaign_cfg ''101'' None 2) ''today'' ''BAU'' (usedContacts rv) state_after_first
       = Some (out, sel, used, s1)
     \<and> clock state_after_first = 1000 \<and> clock s1 = 1040
     \<and> run_campaigns (Suc 0) env_three_quick one_second_apart
          ([campaign_cfg ''100'' None 2] @ campaign_cfg ''101'' None 2
           # [campaign_cfg ''102'' None 2]) ''today'' ''BAU'' start_state
       = campaign_loop (Suc 0) env_three_quick one_second_apart ''today'' ''BAU''
          (length ([campaign_cfg ''100'' None 2] @ campaign_cfg ''101'' None 2
                   # [campaign_cfg ''102'' None 2]))
          [campaign_cfg ''102'' None 2] (Suc (length [campaign_cfg ''100'' None 2]))
          \<lparr>results = results rv @ [settle out], usedContacts = used,
           selections = selections rv @ [sel]\<rparr>
          (setTimeout 960 s1)
     \<and> run_campaigns (Suc 0) env_three_quick one_second_apart
          [campaign_cfg ''100'' None 2, campaign_cfg ''101'' None 2, campaign_cfg ''102'' None 2]
          ''today'' ''BAU'' start_state = Some (rv', s')
     \<and> clock start_state + (3 - 1) * 1000 \<le> clock s'
     \<and> clock s' = 2040 \<and> timers s' = [960, 960]"
proof -
  let ?c1 = "campaign_cfg ''100'' None 2" and ?c2 = "campaign_cfg ''101'' None 2"
    and ?c3 = "campaign_cfg ''102'' None 2"
  from first_of_three_state obtain rv where
    pre: "campaign_loop (Suc 0) env_three_quick one_second_apart ''today'' ''BAU''
            (length ([?c1] @ ?c2 # [?c3])) [?c1] 0 initial_run_vars start_state
          = Some (rv, state_after_first)"
    and used0: "usedContacts rv = []"
    by auto
  from second_of_three_quick obtain out sel used s1 where
    one: "processSingleCampaign (Suc 0) env_three_quick one_second_apart ?c2 ''today'' ''BAU''
            [] state_after_first = Some (out, sel, used, s1)"
    and c1: "clock s1 = 1040"
    by auto
  from run_three_quick obtain rv' s' where
    run: "run_campaigns (Suc 0) env_three_quick one_second_apart [?c1, ?c2, ?c3]
            ''today'' ''BAU'' start_state = Some (rv', s')"
    and c': "clock s' = 2040" and t': "timers s' = [960, 960]"
    by auto
  note inst = C9_delay_between_campaigns
      [of "Suc 0" env_three_quick one_second_apart "''today''" "''BAU''" "[?c1]" "?c2" "[?c3]"
          start_state rv state_after_first out sel used s1 "[?c1, ?c2, ?c3]" rv' s']
  have c0: "clock state_after_first = 1000"
    by (simp add: state_after_first_def)
  have delay: "nat (max 0 (int (INTER_LIST_DELAY_MS one_second_apart)
                 - (int (clock s1) - int (clock state_after_first)))) = 960"
    by (simp add: one_second_apart_def c0 c1)
  have one': "processSingleCampaign (Suc 0) env_three_quick one_second_apart ?c2 ''today''
                ''BAU'' (usedContacts rv) state_after_first = Some (out, sel, used, s1)"
    using one by (simp add: used0)
  have step: "run_campaigns (Suc 0) env_three_quick one_second_apart ([?c1] @ ?c2 # [?c3])
          ''today'' ''BAU'' start_state
       = campaign_loop (Suc 0) env_three_quick one_second_apart ''today'' ''BAU''
          (length ([?c1] @ ?c2 # [?c3])) [?c3] (Suc (length [?c1]))
          \<lparr>results = results rv @ [settle out], usedContacts = used,
           selections = selections rv @ [sel]\<rparr>
          (setTimeout 960 s1)"
    using inst[THEN conjunct1, rule_format, OF conjI[OF pre one']]
    by (simp add: delay del: campaign_loop.simps)
  have bound: "clock start_state + (3 - 1) * 1000 \<le> clock s'"
    using inst[THEN conjunct2] run by (simp add: one_second_apart_def)
  from pre one' c0 c1 step run bound c' t' show ?thesis
    by (intro exI[of _ rv] exI[of _ out] exI[of _ sel] exI[of _ used] exI[of _ s1]
        exI[of _ rv'] exI[of _ s']) simp
qed

end
